theory Spec2Isabelle
  imports Complex_Main "HOL-Library.Multiset"
begin

section \<open>Shared data model (models/schemas.py)\<close>

text \<open>
  \<^verbatim>\<open>ThreatLevel\<close> and \<^verbatim>\<open>AttackType\<close> are string enums; the services below handle the
  string values, so the embedding keeps them as strings and gives the enum values as
  constants. Python floats (the confidence) are modelled as reals: the code only compares
  them with the constant 0.7. Datetimes are integers (microseconds).
\<close>

text \<open>Python values held in the dictionaries of the services (features, raw data, payloads).\<close>

datatype pyval =
    PNone
  | PBool bool
  | PInt int
  | PFloat real
  | PStr string
  | PList "pyval list"
  | PDict "(string \<times> pyval) list"

text \<open>The exceptions the modelled code raises.\<close>

datatype exn = RuntimeError | ValueError | ValidationError | IndexError | JSONDecodeError

record ThreatAlert =
  alert_id :: string
  timestamp :: int
  source_ip :: string
  destination_ip :: string
  attack_type :: string
  threat_level :: string
  confidence :: real
  description :: string
  blocked :: bool
  raw_data :: "(string \<times> pyval) list option"

text \<open>The values of the enum \<^verbatim>\<open>AttackType\<close>; \<^verbatim>\<open>AttackType.BENIGN.value\<close> is the last one.\<close>

definition AttackType_values :: "string list" where
  "AttackType_values =
     [''Flood Attacks'', ''Botnet/Mirai Attacks'', ''Backdoors & Exploits'',
      ''Injection Attacks'', ''Reconnaissance'', ''Spoofing / MITM'', ''Benign'']"

definition AttackType_BENIGN :: string where
  "AttackType_BENIGN = ''Benign''"

text \<open>Python's \<^verbatim>\<open>d.get(k, default)\<close> on a dict given by its items.\<close>

definition dict_get :: "('k \<times> 'v) list \<Rightarrow> 'k \<Rightarrow> 'v \<Rightarrow> 'v" where
  "dict_get d k dflt = (case map_of d k of None \<Rightarrow> dflt | Some v \<Rightarrow> v)"

section \<open>IDSService (services/ids_service.py)\<close>

subsection \<open>\<^verbatim>\<open>_get_threat_level\<close>\<close>

definition threat_mapping :: "(string \<times> string) list" where
  "threat_mapping =
     [(''Flood Attacks'', ''HIGH''),
      (''Botnet/Mirai Attacks'', ''HIGH''),
      (''Backdoors & Exploits'', ''CRITICAL''),
      (''Injection Attacks'', ''HIGH''),
      (''Spoofing / MITM'', ''MEDIUM''),
      (''Reconnaissance'', ''LOW'')]"

definition level_downgrade :: "(string \<times> string) list" where
  "level_downgrade =
     [(''CRITICAL'', ''HIGH''),
      (''HIGH'', ''MEDIUM''),
      (''MEDIUM'', ''LOW''),
      (''LOW'', ''LOW'')]"

definition get_threat_level :: "string \<Rightarrow> real \<Rightarrow> string" where
  "get_threat_level class_name conf =
     (if class_name = ''Benign'' then ''LOW''
      else
        let base_level = dict_get threat_mapping class_name ''MEDIUM'' in
        if conf < 0.7 then dict_get level_downgrade base_level ''LOW''
        else base_level)"

text \<open>
  The four levels and the one-step-down order CRITICAL, HIGH, MEDIUM, LOW, LOW as the
  specification words them; \<open>get_threat_level\<close> above is compared with these.
\<close>

datatype ThreatLevel = LOW | MEDIUM | HIGH | CRITICAL

fun ThreatLevel_value :: "ThreatLevel \<Rightarrow> string" where
  "ThreatLevel_value LOW = ''LOW''"
| "ThreatLevel_value MEDIUM = ''MEDIUM''"
| "ThreatLevel_value HIGH = ''HIGH''"
| "ThreatLevel_value CRITICAL = ''CRITICAL''"

fun one_step_down :: "ThreatLevel \<Rightarrow> ThreatLevel" where
  "one_step_down CRITICAL = HIGH"
| "one_step_down HIGH = MEDIUM"
| "one_step_down MEDIUM = LOW"
| "one_step_down LOW = LOW"

subsection \<open>\<^verbatim>\<open>block_threat\<close> and \<^verbatim>\<open>unblock_threat\<close>\<close>

text \<open>
  The service state: the list of recent alerts, the counters of \<^verbatim>\<open>attack_stats\<close>, and
  whether the service is initialised and its model loaded.
\<close>

record IDSService =
  recent_alerts :: "ThreatAlert list"
  total_attacks :: int
  blocked_attacks :: int
  attack_types :: "(string \<times> int) list"
  is_initialized :: bool
  model_loaded :: bool

text \<open>
  The \<^verbatim>\<open>for alert in self.recent_alerts\<close> loop of \<^verbatim>\<open>block_threat\<close>: the first alert with
  the id is marked and the loop returns; \<open>None\<close> when the loop ends without a match.
\<close>

fun block_loop :: "string \<Rightarrow> ThreatAlert list \<Rightarrow> ThreatAlert list option" where
  "block_loop threat_id [] = None"
| "block_loop threat_id (alert # rest) =
     (if alert_id alert = threat_id then Some (alert\<lparr>blocked := True\<rparr> # rest)
      else map_option ((#) alert) (block_loop threat_id rest))"

definition block_threat :: "string \<Rightarrow> IDSService \<Rightarrow> bool \<times> IDSService" where
  "block_threat threat_id s =
     (case block_loop threat_id (recent_alerts s) of
        Some alerts \<Rightarrow>
          (True, s\<lparr>recent_alerts := alerts, blocked_attacks := blocked_attacks s + 1\<rparr>)
      | None \<Rightarrow> (False, s))"

text \<open>
  The loop of \<^verbatim>\<open>unblock_threat\<close>: the first alert with the id ends the loop; the flag
  says whether it was blocked, in which case the counter is decremented.
\<close>

fun unblock_loop :: "string \<Rightarrow> ThreatAlert list \<Rightarrow> (ThreatAlert list \<times> bool) option" where
  "unblock_loop threat_id [] = None"
| "unblock_loop threat_id (alert # rest) =
     (if alert_id alert = threat_id then
        (if blocked alert then Some (alert\<lparr>blocked := False\<rparr> # rest, True)
         else Some (alert # rest, False))
      else map_option (\<lambda>(alerts, was_blocked). (alert # alerts, was_blocked))
             (unblock_loop threat_id rest))"

definition unblock_threat :: "string \<Rightarrow> IDSService \<Rightarrow> bool \<times> IDSService" where
  "unblock_threat threat_id s =
     (case unblock_loop threat_id (recent_alerts s) of
        Some (alerts, was_blocked) \<Rightarrow>
          (True,
           if was_blocked
           then s\<lparr>recent_alerts := alerts, blocked_attacks := blocked_attacks s - 1\<rparr>
           else s\<lparr>recent_alerts := alerts\<rparr>)
      | None \<Rightarrow> (False, s))"

text \<open>The alert an id designates: the first one of the list carrying it.\<close>

definition alert_by_id :: "string \<Rightarrow> ThreatAlert list \<Rightarrow> ThreatAlert option" where
  "alert_by_id threat_id alerts = find (\<lambda>a. alert_id a = threat_id) alerts"

text \<open>A service state with one blocked alert, used to instantiate the results below.\<close>

definition alert1 :: ThreatAlert where
  "alert1 = \<lparr>alert_id = ''t1'', timestamp = 0, source_ip = ''10.0.0.5'',
     destination_ip = ''10.0.0.1'', attack_type = ''Flood Attacks'', threat_level = ''HIGH'',
     confidence = 0.9, description = ''d'', blocked = True, raw_data = None\<rparr>"

definition ids1 :: IDSService where
  "ids1 = \<lparr>recent_alerts = [alert1], total_attacks = 1, blocked_attacks = 1, attack_types = [],
     is_initialized = True, model_loaded = True\<rparr>"


subsection \<open>\<^verbatim>\<open>predict_attack\<close>\<close>

text \<open>
  The classifier, its scaler and its label encoder are external: the label
  \<open>class_name\<close> and the confidence they produce are arguments, as are the fresh uuid,
  the clock reading and the text of the confidence as the format \<^verbatim>\<open>.2%\<close> prints it.
  \<^verbatim>\<open>AttackType(class_name)\<close> raises for a label outside the enum, and the model
  \<^verbatim>\<open>ThreatAlert\<close> rejects a confidence outside 0..1 and an address that is not a string.
\<close>

definition dict_set :: "('k \<times> 'v) list \<Rightarrow> 'k \<Rightarrow> 'v \<Rightarrow> ('k \<times> 'v) list" where
  "dict_set d k v =
     (if k \<in> fst ` set d then map (\<lambda>(k', v'). if k' = k then (k', v) else (k', v')) d
      else d @ [(k, v)])"

text \<open>Python's \<^verbatim>\<open>xs[-n:]\<close> for a positive \<open>n\<close>: the last \<open>n\<close> elements.\<close>

definition last_n :: "nat \<Rightarrow> 'a list \<Rightarrow> 'a list" where
  "last_n n xs = drop (length xs - n) xs"

definition str_field :: "(string \<times> pyval) list \<Rightarrow> string \<Rightarrow> string \<Rightarrow> string option" where
  "str_field d k dflt =
     (case map_of d k of
        None \<Rightarrow> Some dflt
      | Some (PStr s) \<Rightarrow> Some s
      | Some _ \<Rightarrow> None)"

definition predict_attack ::
  "string \<Rightarrow> int \<Rightarrow> string \<Rightarrow> string \<Rightarrow> real \<Rightarrow> (string \<times> pyval) list \<Rightarrow> IDSService
     \<Rightarrow> exn + (ThreatAlert \<times> IDSService)" where
  "predict_attack uid now conf_text class_name conf network_features s =
     (if \<not> is_initialized s \<or> \<not> model_loaded s then Inl RuntimeError
      else
        let level = get_threat_level class_name conf in
        if class_name \<noteq> ''Benign'' \<and> class_name \<notin> set AttackType_values then Inl ValueError
        else
          case (str_field network_features ''source_ip'' ''0.0.0.0'',
                str_field network_features ''destination_ip'' ''0.0.0.0'') of
            (Some src, Some dst) \<Rightarrow>
              if \<not> (0 \<le> conf \<and> conf \<le> 1) then Inl ValidationError
              else
                let alert = \<lparr>alert_id = uid, timestamp = now, source_ip = src,
                       destination_ip = dst,
                       attack_type =
                         (if class_name \<noteq> ''Benign'' then class_name else AttackType_BENIGN),
                       threat_level = level, confidence = conf,
                       description =
                         ''Detected '' @ class_name @ '' with '' @ conf_text @ '' confidence'',
                       blocked = False, raw_data = Some network_features\<rparr>
                in
                  if class_name \<noteq> ''Benign'' then
                    Inr (alert,
                         s\<lparr>recent_alerts := last_n 100 (recent_alerts s @ [alert]),
                           total_attacks := total_attacks s + 1,
                           attack_types :=
                             dict_set (attack_types s) class_name
                               (dict_get (attack_types s) class_name 0 + 1)\<rparr>)
                  else Inr (alert, s)
          | _ \<Rightarrow> Inl ValidationError)"

section \<open>WebSocketManager (services/websocket_manager.py)\<close>

text \<open>
  A \<^verbatim>\<open>WebSocket\<close> object is known by its identity, a number. What a connection does
  when used belongs to the environment: \<open>client_state c\<close> says whether
  \<^verbatim>\<open>c.client_state.name\<close> is \<^verbatim>\<open>CONNECTED\<close>, and \<open>send_raises c\<close> whether
  \<^verbatim>\<open>c.send_text\<close> raises. The calls run one after the other, as one task does them.
\<close>

type_synonym WebSocket = nat

record ConnInfo =
  connected_at :: string
  user_id :: "string option"
  subscriptions :: "string list"

record WebSocketManager =
  active_connections :: "WebSocket list"
  connection_info :: "WebSocket \<rightharpoonup> ConnInfo"

definition connect :: "WebSocket \<Rightarrow> WebSocketManager \<Rightarrow> WebSocketManager" where
  "connect websocket m =
     m\<lparr>active_connections := active_connections m @ [websocket],
       connection_info := (connection_info m)(websocket \<mapsto>
         \<lparr>connected_at = ''now'', user_id = None, subscriptions = []\<rparr>)\<rparr>"

text \<open>\<^verbatim>\<open>list.remove\<close> takes out the first occurrence, \<^verbatim>\<open>dict.pop(k, None)\<close> the key.\<close>

definition disconnect :: "WebSocket \<Rightarrow> WebSocketManager \<Rightarrow> WebSocketManager" where
  "disconnect websocket m =
     (if websocket \<in> set (active_connections m)
      then m\<lparr>active_connections := remove1 websocket (active_connections m),
             connection_info := (connection_info m)(websocket := None)\<rparr>
      else m)"

text \<open>
  The first loop of \<^verbatim>\<open>broadcast\<close>, over a copy of the connection list: it returns the
  deliveries that succeeded, as pairs of connection and message in the order made, and
  the list \<^verbatim>\<open>disconnected\<close>. A connection that is not connected, or whose send
  raises, goes to \<^verbatim>\<open>disconnected\<close> and the loop goes on.
\<close>

fun broadcast_loop ::
  "(WebSocket \<Rightarrow> bool) \<Rightarrow> (WebSocket \<Rightarrow> bool) \<Rightarrow> string \<Rightarrow> WebSocket list
     \<Rightarrow> (WebSocket \<times> string) list \<times> WebSocket list" where
  "broadcast_loop client_state send_raises message [] = ([], [])"
| "broadcast_loop client_state send_raises message (connection # rest) =
     (let (delivered, disconnected) = broadcast_loop client_state send_raises message rest in
      if client_state connection then
        (if send_raises connection then (delivered, connection # disconnected)
         else ((connection, message) # delivered, disconnected))
      else (delivered, connection # disconnected))"

definition broadcast ::
  "(WebSocket \<Rightarrow> bool) \<Rightarrow> (WebSocket \<Rightarrow> bool) \<Rightarrow> string \<Rightarrow> WebSocketManager
     \<Rightarrow> (WebSocket \<times> string) list \<times> WebSocketManager" where
  "broadcast client_state send_raises message m =
     (let (delivered, disconnected) =
            broadcast_loop client_state send_raises message (active_connections m)
      in (delivered, fold disconnect disconnected m))"

definition get_connection_count :: "WebSocketManager \<Rightarrow> nat" where
  "get_connection_count m = length (active_connections m)"

text \<open>Three subscribers, connected one after the other to a new manager.\<close>

definition hub3 :: WebSocketManager where
  "hub3 = connect 3 (connect 2 (connect 1
            \<lparr>active_connections = [], connection_info = Map.empty\<rparr>))"

section \<open>NetworkMonitor (services/network_monitor.py)\<close>

subsection \<open>\<^verbatim>\<open>_analyze_packet_for_threats\<close>\<close>

record Settings =
  LOCAL_NETWORK_ONLY :: bool
  LOCAL_NETWORK_SUBNET :: string
  MONITOR_INTERNAL_ATTACKS :: bool

text \<open>
  What the method does to the world: it updates the IDS service, hands alerts to
  \<^verbatim>\<open>websocket_manager.broadcast_json\<close> and hands alerts to
  \<^verbatim>\<open>database_service.save_threat_alert\<close>. The two logs record the alerts handed over, in
  order. \<open>websocket_attached\<close> says whether \<^verbatim>\<open>self.websocket_manager\<close> is set.
\<close>

record Pipeline =
  ids_service :: IDSService
  websocket_attached :: bool
  broadcast_log :: "ThreatAlert list"
  saved_alerts :: "ThreatAlert list"

text \<open>
  \<open>in_subnet ip subnet\<close> stands for \<^verbatim>\<open>is_local_network_ip\<close>, which asks the library
  \<^verbatim>\<open>ipaddress\<close>. An exception of \<open>predict_attack\<close> is caught and logged by the method.
\<close>

definition is_internal_attack :: "(string \<Rightarrow> string \<Rightarrow> bool) \<Rightarrow> string \<Rightarrow> string \<Rightarrow> string \<Rightarrow> bool" where
  "is_internal_attack in_subnet src dst local_subnet =
     (in_subnet src local_subnet \<and> in_subnet dst local_subnet)"

definition dict_get_str :: "(string \<times> pyval) list \<Rightarrow> string \<Rightarrow> string \<Rightarrow> string" where
  "dict_get_str d k dflt = (case map_of d k of Some (PStr s) \<Rightarrow> s | _ \<Rightarrow> dflt)"

definition analyze_packet_for_threats ::
  "Settings \<Rightarrow> (string \<Rightarrow> string \<Rightarrow> bool) \<Rightarrow> string \<Rightarrow> int \<Rightarrow> string \<Rightarrow> string \<Rightarrow> real
     \<Rightarrow> (string \<times> pyval) list \<Rightarrow> Pipeline \<Rightarrow> Pipeline" where
  "analyze_packet_for_threats settings in_subnet uid now conf_text class_name conf packet_info m =
     (let src = dict_get_str packet_info ''source_ip'' '''';
          dst = dict_get_str packet_info ''destination_ip'' '''';
          subnet = LOCAL_NETWORK_SUBNET settings
      in
      if LOCAL_NETWORK_ONLY settings \<and> \<not> (in_subnet src subnet \<or> in_subnet dst subnet) then m
      else if LOCAL_NETWORK_ONLY settings \<and> MONITOR_INTERNAL_ATTACKS settings
                \<and> \<not> is_internal_attack in_subnet src dst subnet
                \<and> \<not> in_subnet src subnet then m
      else
        case predict_attack uid now conf_text class_name conf packet_info (ids_service m) of
          Inl e \<Rightarrow> m
        | Inr (threat_alert, ids') \<Rightarrow>
            let m1 = m\<lparr>ids_service := ids'\<rparr> in
            if attack_type threat_alert \<noteq> ''BENIGN'' \<and> confidence threat_alert > 0.7 then
              let m2 = (if websocket_attached m1
                        then m1\<lparr>broadcast_log := broadcast_log m1 @ [threat_alert]\<rparr>
                        else m1)
              in m2\<lparr>saved_alerts := saved_alerts m2 @ [threat_alert]\<rparr>
            else m1)"

text \<open>A running pipeline with default settings and a benign packet, for the results below.\<close>

definition default_settings :: Settings where
  "default_settings = \<lparr>LOCAL_NETWORK_ONLY = False,
     LOCAL_NETWORK_SUBNET = ''192.168.100.0/24'', MONITOR_INTERNAL_ATTACKS = True\<rparr>"

definition pipeline0 :: Pipeline where
  "pipeline0 = \<lparr>ids_service = \<lparr>recent_alerts = [], total_attacks = 0, blocked_attacks = 0,
       attack_types = [], is_initialized = True, model_loaded = True\<rparr>,
     websocket_attached = True, broadcast_log = [], saved_alerts = []\<rparr>"

definition benign_packet :: "(string \<times> pyval) list" where
  "benign_packet = [(''source_ip'', PStr ''192.168.100.7''),
     (''destination_ip'', PStr ''192.168.100.124''), (''protocol'', PInt 6)]"

subsection \<open>The evidence buffer: \<^verbatim>\<open>_process_packet\<close> and \<^verbatim>\<open>_generate_pcap_for_threat\<close>\<close>

text \<open>
  \<^verbatim>\<open>pcap_buffer\<close> maps the key \<^verbatim>\<open>source_destination\<close> to the list of raw packet records of
  that direction. A record holds the clock reading at capture (microseconds), the raw
  bytes and the extracted features.
\<close>

record RawFrame =
  frame_timestamp :: int
  raw_bytes :: "nat list"
  packet_info :: "(string \<times> pyval) list"

















section \<open>ThreatDetector (main_realtime.py)\<close>

text \<open>
  A captured packet, by the layers \<^verbatim>\<open>haslayer\<close> finds in it. TCP flags are the number
  scapy compares with 2, the SYN bit alone.
\<close>

record IP_layer =
  src :: string
  dst :: string

record TCP_layer =
  sport :: nat
  dport :: nat
  flags :: nat

record ICMP_layer =
  icmp_type :: nat
  icmp_code :: nat

record ARP_layer =
  arp_op :: nat

record Packet =
  ip :: "IP_layer option"
  tcp :: "TCP_layer option"
  icmp :: "ICMP_layer option"
  arp :: "ARP_layer option"

text \<open>
  The detector keeps one counter per pattern and one port set, for all sources together
  (\<^verbatim>\<open>self.attack_patterns\<close>). The port set is kept as the list of its elements without
  repetition. The order in which Python lists a set is not fixed by the language; the
  list here keeps the order of insertion, and the results below use only the length and
  the members of a listing.
\<close>

record ThreatDetector =
  target_ip :: string
  syn_flood_count :: int
  syn_flood_threshold :: int
  port_scan_ports :: "nat list"
  port_scan_threshold :: int
  icmp_flood_count :: int
  icmp_flood_threshold :: int
  arp_scan_count :: int
  arp_scan_threshold :: int

definition ThreatDetector_init :: ThreatDetector where
  "ThreatDetector_init =
     \<lparr>target_ip = ''192.168.100.124'',
      syn_flood_count = 0, syn_flood_threshold = 50,
      port_scan_ports = [], port_scan_threshold = 10,
      icmp_flood_count = 0, icmp_flood_threshold = 20,
      arp_scan_count = 0, arp_scan_threshold = 30\<rparr>"

definition set_add :: "'a \<Rightarrow> 'a list \<Rightarrow> 'a list" where
  "set_add x xs = (if x \<in> set xs then xs else xs @ [x])"

text \<open>Python's \<^verbatim>\<open>str\<close> of a natural number, for the f-strings.\<close>

fun str_nat :: "nat \<Rightarrow> string" where
  "str_nat n =
     (if n < 10 then [''0123456789'' ! n]
      else str_nat (n div 10) @ [''0123456789'' ! (n mod 10)])"

text \<open>
  \<open>detect_attack\<close> takes the fresh uuid and the clock reading, and returns the threat (or
  \<open>None\<close>) with the detector as the call leaves it. The threat dictionary has the keys of
  \<open>ThreatAlert\<close> and is kept in that record.
\<close>

definition detect_attack ::
  "string \<Rightarrow> int \<Rightarrow> Packet \<Rightarrow> ThreatDetector \<Rightarrow> ThreatAlert option \<times> ThreatDetector" where
  "detect_attack uid now packet d =
     (case ip packet of
        None \<Rightarrow> (None, d)
      | Some ip_layer \<Rightarrow>
          let src_ip = src ip_layer; dst_ip = dst ip_layer in
          if dst_ip \<noteq> target_ip d then (None, d)
          else if tcp packet \<noteq> None \<and> flags (the (tcp packet)) = 2 then
            (let t = the (tcp packet);
                 d1 = d\<lparr>syn_flood_count := syn_flood_count d + 1\<rparr> in
             if syn_flood_count d1 > syn_flood_threshold d1 then
               (Some \<lparr>alert_id = uid, timestamp = now, source_ip = src_ip,
                       destination_ip = dst_ip, attack_type = ''Flood Attacks'',
                       threat_level = ''HIGH'', confidence = 95,
                       description = ''SYN flood attack detected from '' @ src_ip,
                       blocked = False,
                       raw_data = Some [(''protocol'', PStr ''TCP''),
                                        (''src_port'', PInt (int (sport t))),
                                        (''dst_port'', PInt (int (dport t))),
                                        (''flags'', PInt (int (flags t)))]\<rparr>,
                d1\<lparr>syn_flood_count := 0\<rparr>)
             else (None, d1))
          else if tcp packet \<noteq> None then
            (let port = dport (the (tcp packet));
                 d1 = d\<lparr>port_scan_ports := set_add port (port_scan_ports d)\<rparr> in
             if int (length (port_scan_ports d1)) > port_scan_threshold d1 then
               (Some \<lparr>alert_id = uid, timestamp = now, source_ip = src_ip,
                       destination_ip = dst_ip, attack_type = ''Reconnaissance'',
                       threat_level = ''MEDIUM'', confidence = 85,
                       description = ''Port scan detected from '' @ src_ip @ '' - ''
                         @ str_nat (length (port_scan_ports d1)) @ '' ports scanned'',
                       blocked = False,
                       raw_data = Some [(''protocol'', PStr ''TCP''),
                                        (''scanned_ports'',
                                           PList (map (\<lambda>p. PInt (int p))
                                                    (last_n 10 (port_scan_ports d1)))),
                                        (''total_ports'',
                                           PInt (int (length (port_scan_ports d1))))]\<rparr>,
                d1\<lparr>port_scan_ports := []\<rparr>)
             else (None, d1))
          else if icmp packet \<noteq> None then
            (let i = the (icmp packet);
                 d1 = d\<lparr>icmp_flood_count := icmp_flood_count d + 1\<rparr> in
             if icmp_flood_count d1 > icmp_flood_threshold d1 then
               (Some \<lparr>alert_id = uid, timestamp = now, source_ip = src_ip,
                       destination_ip = dst_ip, attack_type = ''Flood Attacks'',
                       threat_level = ''MEDIUM'', confidence = 80,
                       description = ''ICMP flood attack detected from '' @ src_ip,
                       blocked = False,
                       raw_data = Some [(''protocol'', PStr ''ICMP''),
                                        (''type'', PInt (int (icmp_type i))),
                                        (''code'', PInt (int (icmp_code i)))]\<rparr>,
                d1\<lparr>icmp_flood_count := 0\<rparr>)
             else (None, d1))
          else if arp packet \<noteq> None then
            (let a = the (arp packet);
                 d1 = d\<lparr>arp_scan_count := arp_scan_count d + 1\<rparr> in
             if arp_scan_count d1 > arp_scan_threshold d1 then
               (Some \<lparr>alert_id = uid, timestamp = now, source_ip = src_ip,
                       destination_ip = dst_ip, attack_type = ''Reconnaissance'',
                       threat_level = ''LOW'', confidence = 70,
                       description = ''ARP scan detected from '' @ src_ip,
                       blocked = False,
                       raw_data = Some [(''protocol'', PStr ''ARP''),
                                        (''operation'', PInt (int (arp_op a)))]\<rparr>,
                d1\<lparr>arp_scan_count := 0\<rparr>)
             else (None, d1))
          else (None, d))"

text \<open>
  The packets of a capture, one call of \<open>detect_attack\<close> each, in order (as
  \<^verbatim>\<open>packet_handler\<close> calls it), with the uuid and clock reading of each call.
\<close>

fun run_detector ::
  "ThreatDetector \<Rightarrow> (string \<times> int \<times> Packet) list \<Rightarrow> ThreatAlert option list \<times> ThreatDetector" where
  "run_detector d [] = ([], d)"
| "run_detector d ((uid, now, packet) # rest) =
     (let (threat, d1) = detect_attack uid now packet d;
          (threats, d2) = run_detector d1 rest
      in (threat # threats, d2))"

text \<open>A TCP packet from \<open>source\<close> to \<open>target\<close> with the given flags and destination port.\<close>

definition tcp_packet :: "string \<Rightarrow> string \<Rightarrow> nat \<Rightarrow> nat \<Rightarrow> Packet" where
  "tcp_packet source target fl port =
     \<lparr>ip = Some \<lparr>src = source, dst = target\<rparr>,
      tcp = Some \<lparr>sport = 40000, dport = port, flags = fl\<rparr>,
      icmp = None, arp = None\<rparr>"

text \<open>The SYN-only packets of a source to the target.\<close>

definition is_syn_to :: "string \<Rightarrow> string \<Rightarrow> Packet \<Rightarrow> bool" where
  "is_syn_to source target packet =
     (case (ip packet, tcp packet) of
        (Some i, Some t) \<Rightarrow> src i = source \<and> dst i = target \<and> flags t = 2
      | _ \<Rightarrow> False)"

text \<open>The TCP packets of a source to the target that are not SYN-only.\<close>

definition is_other_tcp_to :: "string \<Rightarrow> string \<Rightarrow> Packet \<Rightarrow> bool" where
  "is_other_tcp_to source target packet =
     (case (ip packet, tcp packet) of
        (Some i, Some t) \<Rightarrow> src i = source \<and> dst i = target \<and> flags t \<noteq> 2
      | _ \<Rightarrow> False)"

definition dport_of :: "Packet \<Rightarrow> nat" where
  "dport_of packet = (case tcp packet of Some t \<Rightarrow> dport t | None \<Rightarrow> 0)"

text \<open>The ports an alert lists under \<^verbatim>\<open>scanned_ports\<close> and its \<^verbatim>\<open>total_ports\<close>.\<close>

definition scanned_ports :: "ThreatAlert \<Rightarrow> pyval list" where
  "scanned_ports a =
     (case raw_data a of
        Some r \<Rightarrow> (case map_of r ''scanned_ports'' of Some (PList ps) \<Rightarrow> ps | _ \<Rightarrow> [])
      | None \<Rightarrow> [])"

definition total_ports :: "ThreatAlert \<Rightarrow> pyval" where
  "total_ports a = (case raw_data a of Some r \<Rightarrow> dict_get r ''total_ports'' PNone | None \<Rightarrow> PNone)"

text \<open>
  Two captures for the results below: a SYN-only packet to port 80, and a scan of the
  ports 1 to 11 with ACK packets (flags 16), all from 10.0.0.5 to the target.
\<close>

definition syn80 :: Packet where
  "syn80 = tcp_packet ''10.0.0.5'' ''192.168.100.124'' 2 80"

definition scan11 :: "(string \<times> int \<times> Packet) list" where
  "scan11 = map (\<lambda>n. (''u'', 0, tcp_packet ''10.0.0.5'' ''192.168.100.124'' 16 n)) [1..<12]"

section \<open>BlockchainAudit (services/blockchain_audit.py)\<close>

text \<open>
  A block of the chain. \<open>block_timestamp\<close> is the key \<^verbatim>\<open>timestamp\<close> (an ISO text) and
  \<open>data\<close> the payload. The key \<^verbatim>\<open>hash\<close> is \<^verbatim>\<open>None\<close> until the block is mined; the
  hash is computed from the other five keys, so the field holds the empty text until then.
\<close>

record AuditBlock =
  index :: int
  block_timestamp :: string
  data :: pyval
  previous_hash :: string
  nonce :: int
  hash :: string

text \<open>
  SHA-256 and \<^verbatim>\<open>json.dumps\<close> belong to the Python library. Their composition, from the
  five hashed keys to the hexadecimal digest, is the parameter \<open>H\<close> of the functions below.
\<close>

type_synonym hash_fn = "int \<times> string \<times> pyval \<times> string \<times> int \<Rightarrow> string"

definition calculate_hash :: "hash_fn \<Rightarrow> AuditBlock \<Rightarrow> string" where
  "calculate_hash H block =
     H (index block, block_timestamp block, data block, previous_hash block, nonce block)"

definition startswith :: "string \<Rightarrow> string \<Rightarrow> bool" where
  "startswith s p = (take (length p) s = p)"

text \<open>The target \<^verbatim>\<open>"0" * difficulty\<close>.\<close>

definition zeros :: "nat \<Rightarrow> string" where
  "zeros n = replicate n (CHR ''0'')"

record BlockchainAudit =
  chain :: "AuditBlock list"
  difficulty :: nat

text \<open>
  The loop \<^verbatim>\<open>while True\<close> of \<^verbatim>\<open>_mine_block\<close>. It may run for ever, so the function is
  partial: \<open>None\<close> stands for a search that does not return. A search that returns gives
  the hash, the block with the nonce the search left in it, and the difficulty the search
  left in the chain.
\<close>

partial_function (option) mine_block ::
  "hash_fn \<Rightarrow> nat \<Rightarrow> AuditBlock \<Rightarrow> (string \<times> AuditBlock \<times> nat) option" where
  "mine_block H dif block =
     (if startswith (calculate_hash H block) (zeros dif)
      then Some (calculate_hash H block, block, dif)
      else if nonce block + 1 > 1000000
           then mine_block H (max 1 (dif - 1)) (block\<lparr>nonce := 0\<rparr>)
           else mine_block H dif (block\<lparr>nonce := nonce block + 1\<rparr>))"

definition genesis_data :: pyval where
  "genesis_data =
     PDict [(''event'', PStr ''genesis_block''),
            (''description'', PStr ''Cybersecurity IDS/IPS Platform started''),
            (''system'', PStr ''audit_trail'')]"

definition create_genesis_block :: "hash_fn \<Rightarrow> string \<Rightarrow> BlockchainAudit \<Rightarrow> BlockchainAudit option" where
  "create_genesis_block H now s =
     (let genesis_block = \<lparr>index = 0, block_timestamp = now, data = genesis_data,
                           previous_hash = ''0'', nonce = 0, hash = ''''\<rparr>
      in case mine_block H (difficulty s) genesis_block of
           None \<Rightarrow> None
         | Some (hash_result, mined, dif) \<Rightarrow>
             Some (s\<lparr>chain := chain s @ [mined\<lparr>hash := hash_result\<rparr>], difficulty := dif\<rparr>))"

text \<open>The constructor: an empty chain of difficulty 4, then the genesis block.\<close>

definition BlockchainAudit_init :: "hash_fn \<Rightarrow> string \<Rightarrow> BlockchainAudit option" where
  "BlockchainAudit_init H now = create_genesis_block H now \<lparr>chain = [], difficulty = 4\<rparr>"

definition is_valid_block :: "hash_fn \<Rightarrow> nat \<Rightarrow> AuditBlock \<Rightarrow> AuditBlock \<Rightarrow> bool" where
  "is_valid_block H dif block previous_block =
     (if index block \<noteq> index previous_block + 1 then False
      else if previous_hash block \<noteq> hash previous_block then False
      else if hash block \<noteq> calculate_hash H block then False
      else if \<not> startswith (hash block) (zeros dif) then False
      else True)"

text \<open>The loop of \<^verbatim>\<open>is_chain_valid\<close> over the positions from 1 on.\<close>

fun chain_valid_loop :: "hash_fn \<Rightarrow> nat \<Rightarrow> AuditBlock list \<Rightarrow> bool" where
  "chain_valid_loop H dif (previous_block # current_block # rest) =
     (if \<not> is_valid_block H dif current_block previous_block then False
      else chain_valid_loop H dif (current_block # rest))"
| "chain_valid_loop H dif [b] = True"
| "chain_valid_loop H dif [] = True"

definition is_chain_valid :: "hash_fn \<Rightarrow> BlockchainAudit \<Rightarrow> bool" where
  "is_chain_valid H s = chain_valid_loop H (difficulty s) (chain s)"

text \<open>
  \<open>add_block\<close> returns the new block or the exception raised, with the chain object as
  the call leaves it; \<open>None\<close> when the mining does not return. \<^verbatim>\<open>self.chain[-1]\<close> raises
  on an empty chain.
\<close>

definition add_block ::
  "hash_fn \<Rightarrow> string \<Rightarrow> pyval \<Rightarrow> BlockchainAudit \<Rightarrow> ((exn + AuditBlock) \<times> BlockchainAudit) option" where
  "add_block H now payload s =
     (if chain s = [] then Some (Inl IndexError, s)
      else
        let previous_block = last (chain s);
            new_block = \<lparr>index = int (length (chain s)), block_timestamp = now,
                         data = payload, previous_hash = hash previous_block,
                         nonce = 0, hash = ''''\<rparr>
        in case mine_block H (difficulty s) new_block of
             None \<Rightarrow> None
           | Some (hash_result, mined, dif) \<Rightarrow>
               let new_block = mined\<lparr>hash := hash_result\<rparr>;
                   s1 = s\<lparr>difficulty := dif\<rparr>
               in if is_valid_block H (difficulty s1) new_block previous_block
                  then Some (Inr new_block, s1\<lparr>chain := chain s1 @ [new_block]\<rparr>)
                  else Some (Inl ValueError, s1))"

text \<open>The chains built by the constructor and calls of \<open>add_block\<close> alone.\<close>

inductive built :: "hash_fn \<Rightarrow> BlockchainAudit \<Rightarrow> bool" for H :: hash_fn where
  built_init: "BlockchainAudit_init H now = Some s \<Longrightarrow> built H s"
| built_add: "built H s \<Longrightarrow> add_block H now payload s = Some (r, s') \<Longrightarrow> built H s'"

text \<open>Python's \<^verbatim>\<open>str.lower\<close> on ASCII text.\<close>

definition ascii_lower :: "char \<Rightarrow> char" where
  "ascii_lower c =
     (case map_of (zip ''ABCDEFGHIJKLMNOPQRSTUVWXYZ'' ''abcdefghijklmnopqrstuvwxyz'') c of
        Some l \<Rightarrow> l
      | None \<Rightarrow> c)"

definition str_lower :: "string \<Rightarrow> string" where
  "str_lower s = map ascii_lower s"

text \<open>
  \<open>import_chain\<close> returns the exception raised, if any, with the chain object as the
  call leaves it. \<open>json_loads\<close> parses the text into a list of blocks (\<open>None\<close> when it
  raises). The chain is checked inside a new chain object, whose constructor mines a
  genesis block of its own at time \<open>now\<close>; \<open>None\<close> when that mining does not return.
\<close>

definition import_chain ::
  "hash_fn \<Rightarrow> (string \<Rightarrow> AuditBlock list option) \<Rightarrow> string \<Rightarrow> string \<Rightarrow> string \<Rightarrow> BlockchainAudit
     \<Rightarrow> (exn option \<times> BlockchainAudit) option" where
  "import_chain H json_loads now chain_data format s =
     (if str_lower format = ''json'' then
        (case json_loads chain_data of
           None \<Rightarrow> Some (Some JSONDecodeError, s)
         | Some imported_chain \<Rightarrow>
             (case BlockchainAudit_init H now of
                None \<Rightarrow> None
              | Some temp \<Rightarrow>
                  let temp_blockchain = temp\<lparr>chain := imported_chain\<rparr> in
                  if is_chain_valid H temp_blockchain
                  then Some (None, s\<lparr>chain := imported_chain\<rparr>)
                  else Some (Some ValueError, s)))
      else Some (Some ValueError, s))"

text \<open>
  A stand-in for the digest, to run the chain on: \<open>H_demo\<close> gives four zeros followed
  by the first text of the payload, so it meets the target at the first nonce and
  changes with the payload.
\<close>

fun payload_text :: "pyval \<Rightarrow> string" where
  "payload_text (PStr s) = s"
| "payload_text (PDict ((k, PStr v) # rest)) = v"
| "payload_text v = ''''"

definition H_demo :: hash_fn where
  "H_demo = (\<lambda>(i, ts, payload, prev, n). ''0000'' @ payload_text payload)"

definition demo_genesis :: AuditBlock where
  "demo_genesis = \<lparr>index = 0, block_timestamp = ''t0'', data = genesis_data,
     previous_hash = ''0'', nonce = 0, hash = ''0000genesis_block''\<rparr>"

definition demo_payload :: pyval where
  "demo_payload = PDict [(''event'', PStr ''threat_detection'')]"

definition tampered_payload :: pyval where
  "tampered_payload = PDict [(''event'', PStr ''tampered'')]"

definition demo_block1 :: AuditBlock where
  "demo_block1 = \<lparr>index = 1, block_timestamp = ''t1'', data = demo_payload,
     previous_hash = ''0000genesis_block'', nonce = 0, hash = ''0000threat_detection''\<rparr>"

definition demo_chain0 :: BlockchainAudit where
  "demo_chain0 = \<lparr>chain = [demo_genesis], difficulty = 4\<rparr>"

definition demo_chain1 :: BlockchainAudit where
  "demo_chain1 = \<lparr>chain = [demo_genesis, demo_block1], difficulty = 4\<rparr>"
section \<open>Threat level of a classification\<close>

lemma threat_mapping_cases:
  "dict_get threat_mapping class_name ''MEDIUM'' \<in> {''LOW'', ''MEDIUM'', ''HIGH'', ''CRITICAL''}"
  by (simp add: dict_get_def threat_mapping_def)

text \<open>
  Claim C9. For a predicted attack label (any label other than Benign) the base level is
  the table entry (MEDIUM for a label the table lacks). With confidence below 0.7 the
  level returned is one step below the base level (CRITICAL to HIGH, HIGH to MEDIUM,
  MEDIUM to LOW, LOW stays LOW); with confidence 0.7 or more it is the base level. Hence
  Backdoors and Exploits at confidence 0.65 gives HIGH and not CRITICAL.
\<close>

theorem get_threat_level_one_step_down:
  assumes "class_name \<noteq> ''Benign''"
  shows "(\<exists>base. dict_get threat_mapping class_name ''MEDIUM'' = ThreatLevel_value base
            \<and> get_threat_level class_name conf =
                (if conf < 0.7 then ThreatLevel_value (one_step_down base)
                 else ThreatLevel_value base))
         \<and> dict_get threat_mapping ''Backdoors & Exploits'' ''MEDIUM'' = ''CRITICAL''
         \<and> get_threat_level ''Backdoors & Exploits'' 0.65 = ''HIGH''
         \<and> get_threat_level ''Backdoors & Exploits'' 0.65 \<noteq> ''CRITICAL''"
proof -
  have ex: "\<exists>base. dict_get threat_mapping class_name ''MEDIUM'' = ThreatLevel_value base
            \<and> get_threat_level class_name conf =
                (if conf < 0.7 then ThreatLevel_value (one_step_down base)
                 else ThreatLevel_value base)"
  proof -
    from threat_mapping_cases [of class_name]
    consider "dict_get threat_mapping class_name ''MEDIUM'' = ''LOW''"
      | "dict_get threat_mapping class_name ''MEDIUM'' = ''MEDIUM''"
      | "dict_get threat_mapping class_name ''MEDIUM'' = ''HIGH''"
      | "dict_get threat_mapping class_name ''MEDIUM'' = ''CRITICAL''"
      by auto
    then show ?thesis
    proof cases
      case 1
      with assms have "get_threat_level class_name conf = ''LOW''"
        by (simp add: get_threat_level_def Let_def dict_get_def level_downgrade_def)
      with 1 show ?thesis by (intro exI [of _ LOW]) simp
    next
      case 2
      with assms have "get_threat_level class_name conf =
          (if conf < 0.7 then ''LOW'' else ''MEDIUM'')"
        by (simp add: get_threat_level_def Let_def dict_get_def level_downgrade_def)
      with 2 show ?thesis by (intro exI [of _ MEDIUM]) simp
    next
      case 3
      with assms have "get_threat_level class_name conf =
          (if conf < 0.7 then ''MEDIUM'' else ''HIGH'')"
        by (simp add: get_threat_level_def Let_def dict_get_def level_downgrade_def)
      with 3 show ?thesis by (intro exI [of _ HIGH]) simp
    next
      case 4
      with assms have "get_threat_level class_name conf =
          (if conf < 0.7 then ''HIGH'' else ''CRITICAL'')"
        by (simp add: get_threat_level_def Let_def dict_get_def level_downgrade_def)
      with 4 show ?thesis by (intro exI [of _ CRITICAL]) simp
    qed
  qed
  have b: "dict_get threat_mapping ''Backdoors & Exploits'' ''MEDIUM'' = ''CRITICAL''"
    by (simp add: dict_get_def threat_mapping_def)
  have c: "get_threat_level ''Backdoors & Exploits'' 0.65 = ''HIGH''"
    by (simp add: get_threat_level_def Let_def b) (simp add: dict_get_def level_downgrade_def)
  from ex b c show ?thesis by simp
qed

theorem get_threat_level_one_step_down_witness:
  "''Flood Attacks'' \<noteq> ''Benign''
   \<and> get_threat_level ''Flood Attacks'' 0.5 = ''MEDIUM''
   \<and> get_threat_level ''Flood Attacks'' 0.7 = ''HIGH''"
proof -
  have h: "''Flood Attacks'' \<noteq> ''Benign''" by simp
  have b: "dict_get threat_mapping ''Flood Attacks'' ''MEDIUM'' = ''HIGH''"
    by (simp add: dict_get_def threat_mapping_def)
  from get_threat_level_one_step_down [OF h, of "0.5"]
  obtain base where b1: "dict_get threat_mapping ''Flood Attacks'' ''MEDIUM'' = ThreatLevel_value base"
    and r1: "get_threat_level ''Flood Attacks'' 0.5 =
      (if (0.5::real) < 0.7 then ThreatLevel_value (one_step_down base)
       else ThreatLevel_value base)"
    by blast
  from b1 b have "base = HIGH" by (cases base) simp_all
  with r1 have lo: "get_threat_level ''Flood Attacks'' 0.5 = ''MEDIUM''" by simp
  from get_threat_level_one_step_down [OF h, of "0.7"]
  obtain base' where b2: "dict_get threat_mapping ''Flood Attacks'' ''MEDIUM'' = ThreatLevel_value base'"
    and r2: "get_threat_level ''Flood Attacks'' 0.7 =
      (if (0.7::real) < 0.7 then ThreatLevel_value (one_step_down base')
       else ThreatLevel_value base')"
    by blast
  from b2 b have "base' = HIGH" by (cases base') simp_all
  with r2 have hi: "get_threat_level ''Flood Attacks'' 0.7 = ''HIGH''" by simp
  from h lo hi show ?thesis by simp
qed
section \<open>Blocking and unblocking a threat\<close>

lemma block_loop_None:
  "find (\<lambda>a. alert_id a = tid) xs = None \<Longrightarrow> block_loop tid xs = None"
  by (induction xs) (auto split: if_splits)

lemma unblock_loop_None:
  "find (\<lambda>a. alert_id a = tid) xs = None \<Longrightarrow> unblock_loop tid xs = None"
  by (induction xs) (auto split: if_splits)

lemma block_loop_Some:
  "find (\<lambda>a. alert_id a = tid) xs = Some b \<Longrightarrow>
   \<exists>ys. block_loop tid xs = Some ys
      \<and> find (\<lambda>a. alert_id a = tid) ys = Some (b\<lparr>blocked := True\<rparr>)
      \<and> map alert_id ys = map alert_id xs"
  by (induction xs) (auto split: if_splits)

lemma unblock_loop_Some:
  "find (\<lambda>a. alert_id a = tid) xs = Some b \<Longrightarrow>
   \<exists>ys. unblock_loop tid xs = Some (ys, blocked b)
      \<and> find (\<lambda>a. alert_id a = tid) ys = Some (b\<lparr>blocked := False\<rparr>)
      \<and> map alert_id ys = map alert_id xs"
  by (induction xs) (auto split: if_splits)

lemma find_distinct_ids:
  "a \<in> set xs \<Longrightarrow> distinct (map alert_id xs) \<Longrightarrow>
   find (\<lambda>b. alert_id b = alert_id a) xs = Some a"
  by (induction xs) (auto simp: image_iff)

lemma find_member:
  "a \<in> set xs \<Longrightarrow> \<exists>b. find (\<lambda>b. alert_id b = alert_id a) xs = Some b"
  by (induction xs) auto

text \<open>
  Claim C10. For an alert of the recent-alerts list, whatever its blocked state,
  \<open>block_threat\<close> followed by \<open>unblock_threat\<close> on its id returns True both times, the
  alert the id designates ends with blocked False, and the blocked_attacks counter is
  back at its value before the two calls: the block adds one unconditionally and the
  unblock of an alert takes one off only when the alert was blocked. For an id that no
  alert of the list carries both operations return False and leave the state as it was.
\<close>

theorem block_then_unblock:
  "(a \<in> set (recent_alerts s) \<longrightarrow>
      (\<exists>b. alert_by_id (alert_id a) (recent_alerts s) = Some b
        \<and> fst (block_threat (alert_id a) s)
        \<and> blocked_attacks (snd (block_threat (alert_id a) s)) = blocked_attacks s + 1
        \<and> fst (unblock_threat (alert_id a) (snd (block_threat (alert_id a) s)))
        \<and> alert_by_id (alert_id a)
            (recent_alerts (snd (unblock_threat (alert_id a) (snd (block_threat (alert_id a) s)))))
            = Some (b\<lparr>blocked := False\<rparr>)
        \<and> blocked_attacks (snd (unblock_threat (alert_id a) (snd (block_threat (alert_id a) s))))
            = blocked_attacks s
        \<and> blocked_attacks (snd (unblock_threat (alert_id a) s))
            = (if blocked b then blocked_attacks s - 1 else blocked_attacks s)
        \<and> (distinct (map alert_id (recent_alerts s)) \<longrightarrow> b = a)))
   \<and> (tid \<notin> alert_id ` set (recent_alerts s) \<longrightarrow>
        block_threat tid s = (False, s) \<and> unblock_threat tid s = (False, s))"
proof -
 have part1: "\<exists>b. alert_by_id (alert_id a) (recent_alerts s) = Some b
        \<and> fst (block_threat (alert_id a) s)
        \<and> blocked_attacks (snd (block_threat (alert_id a) s)) = blocked_attacks s + 1
        \<and> fst (unblock_threat (alert_id a) (snd (block_threat (alert_id a) s)))
        \<and> alert_by_id (alert_id a)
            (recent_alerts (snd (unblock_threat (alert_id a) (snd (block_threat (alert_id a) s)))))
            = Some (b\<lparr>blocked := False\<rparr>)
        \<and> blocked_attacks (snd (unblock_threat (alert_id a) (snd (block_threat (alert_id a) s))))
            = blocked_attacks s
        \<and> blocked_attacks (snd (unblock_threat (alert_id a) s))
            = (if blocked b then blocked_attacks s - 1 else blocked_attacks s)
        \<and> (distinct (map alert_id (recent_alerts s)) \<longrightarrow> b = a)"
   if mem: "a \<in> set (recent_alerts s)"
 proof -
  let ?P = "\<lambda>x. alert_id x = alert_id a"
  from find_member [OF mem] obtain b where b: "find ?P (recent_alerts s) = Some b" by blast
  from block_loop_Some [OF b] obtain ys where
    ys: "block_loop (alert_id a) (recent_alerts s) = Some ys"
    and fys: "find ?P ys = Some (b\<lparr>blocked := True\<rparr>)" by blast
  from unblock_loop_Some [OF fys] obtain zs where
    zs: "unblock_loop (alert_id a) ys = Some (zs, True)"
    and fzs: "find ?P zs = Some (b\<lparr>blocked := False\<rparr>)" by auto
  from unblock_loop_Some [OF b] obtain us where
    us: "unblock_loop (alert_id a) (recent_alerts s) = Some (us, blocked b)" by blast
  have d: "distinct (map alert_id (recent_alerts s)) \<longrightarrow> b = a"
    using find_distinct_ids [OF mem] b by auto
  show ?thesis
    using b ys zs fzs us d
    by (intro exI [of _ b]) (simp add: alert_by_id_def block_threat_def unblock_threat_def)
 qed
 have part2: "block_threat tid s = (False, s) \<and> unblock_threat tid s = (False, s)"
   if "tid \<notin> alert_id ` set (recent_alerts s)"
 proof -
  from that have n: "find (\<lambda>a. alert_id a = tid) (recent_alerts s) = None"
    by (auto simp: find_None_iff)
  show ?thesis
    using block_loop_None [OF n] unblock_loop_None [OF n]
    by (simp add: block_threat_def unblock_threat_def)
 qed
 from part1 part2 show ?thesis by blast
qed

theorem block_then_unblock_witness:
  "alert1 \<in> set (recent_alerts ids1)
   \<and> blocked_attacks (snd (unblock_threat ''t1'' (snd (block_threat ''t1'' ids1)))) = 1
   \<and> ''zz'' \<notin> alert_id ` set (recent_alerts ids1)
   \<and> block_threat ''zz'' ids1 = (False, ids1)"
proof -
  have m: "alert1 \<in> set (recent_alerts ids1)" by (simp add: ids1_def)
  have n: "''zz'' \<notin> alert_id ` set (recent_alerts ids1)" by (simp add: ids1_def alert1_def)
  have i: "alert_id alert1 = ''t1''" by (simp add: alert1_def)
  have c: "blocked_attacks ids1 = 1" by (simp add: ids1_def)
  from block_then_unblock [of alert1 ids1 "''zz''"] m n i c show ?thesis by auto
qed

section \<open>Benign classifications\<close>

lemma predict_attack_benign_not_stored:
  "predict_attack uid now conf_text ''Benign'' conf nf s = Inr (alert, s') \<Longrightarrow>
   s' = s \<and> attack_type alert = ''Benign''"
  by (auto simp: predict_attack_def Let_def AttackType_BENIGN_def
           split: if_splits option.splits prod.splits)

text \<open>
  Claim C5. A packet whose predicted label is Benign must produce no alert: nothing stored
  in the recent alerts, nothing broadcast, nothing persisted. The service stores no
  benign alert (lemma above), but the monitor compares the enum value, which is
  \<^verbatim>\<open>Benign\<close>, with the text \<^verbatim>\<open>BENIGN\<close>: for the benign packet below, classified Benign
  with confidence 0.9, the alert is handed to the broadcast and to the database.
\<close>

theorem benign_prediction_is_broadcast:
  "map attack_type (broadcast_log
      (analyze_packet_for_threats default_settings (\<lambda>ip subnet. True) ''u1'' 0 ''90.00%''
         ''Benign'' 0.9 benign_packet pipeline0)) = [''Benign'']
   \<and> map attack_type (saved_alerts
      (analyze_packet_for_threats default_settings (\<lambda>ip subnet. True) ''u1'' 0 ''90.00%''
         ''Benign'' 0.9 benign_packet pipeline0)) = [''Benign'']
   \<and> recent_alerts (ids_service
      (analyze_packet_for_threats default_settings (\<lambda>ip subnet. True) ''u1'' 0 ''90.00%''
         ''Benign'' 0.9 benign_packet pipeline0)) = []"
  by (simp add: analyze_packet_for_threats_def default_settings_def pipeline0_def
        benign_packet_def predict_attack_def str_field_def dict_get_str_def
        AttackType_BENIGN_def Let_def get_threat_level_def)

section \<open>Broadcast with a failing subscriber\<close>

lemma broadcast_loop_delivered:
  "fst (broadcast_loop cs sr msg xs) =
     map (\<lambda>c. (c, msg)) (filter (\<lambda>c. cs c \<and> \<not> sr c) xs)"
  by (induction xs) (auto simp: Let_def split: prod.splits)

lemma broadcast_loop_disconnected:
  "snd (broadcast_loop cs sr msg xs) = filter (\<lambda>c. \<not> (cs c \<and> \<not> sr c)) xs"
  by (induction xs) (auto simp: Let_def split: prod.splits)

lemma disconnect_connections:
  "active_connections (disconnect c m) = remove1 c (active_connections m)"
  by (simp add: disconnect_def remove1_idem)

lemma fold_disconnect_connections:
  "active_connections (fold disconnect ds m) = fold remove1 ds (active_connections m)"
  by (induction ds arbitrary: m) (simp_all add: disconnect_connections)

lemma fold_remove1_filter:
  "\<forall>y \<in> set ys. P y \<Longrightarrow>
   fold remove1 (filter (\<lambda>c. \<not> P c) xs) (ys @ xs) = ys @ filter P xs"
proof (induction xs arbitrary: ys)
  case Nil
  then show ?case by simp
next
  case (Cons x xs)
  show ?case
  proof (cases "P x")
    case True
    with Cons.prems have "\<forall>y \<in> set (ys @ [x]). P y" by simp
    from Cons.IH [OF this] True show ?thesis by simp
  next
    case False
    with Cons.prems have "x \<notin> set ys" by auto
    then have "remove1 x (ys @ x # xs) = ys @ xs" by (simp add: remove1_append)
    with False Cons.IH [OF Cons.prems] show ?thesis by simp
  qed
qed

lemma broadcast_connections:
  "active_connections (snd (broadcast cs sr msg m)) =
     filter (\<lambda>c. cs c \<and> \<not> sr c) (active_connections m)"
proof -
  obtain del dis where l: "broadcast_loop cs sr msg (active_connections m) = (del, dis)"
    by (cases "broadcast_loop cs sr msg (active_connections m)")
  with broadcast_loop_disconnected [of cs sr msg "active_connections m"]
  have dis: "dis = filter (\<lambda>c. \<not> (cs c \<and> \<not> sr c)) (active_connections m)" by simp
  have "fold remove1 dis (active_connections m) =
          filter (\<lambda>c. cs c \<and> \<not> sr c) (active_connections m)"
    unfolding dis
    using fold_remove1_filter [of "[]" "\<lambda>c. cs c \<and> \<not> sr c" "active_connections m"]
    by simp
  with l show ?thesis by (simp add: broadcast_def fold_disconnect_connections)
qed

lemma broadcast_delivered:
  "fst (broadcast cs sr msg m) =
     map (\<lambda>c. (c, msg)) (filter (\<lambda>c. cs c \<and> \<not> sr c) (active_connections m))"
  using broadcast_loop_delivered [of cs sr msg "active_connections m"]
  by (cases "broadcast_loop cs sr msg (active_connections m)") (simp add: broadcast_def)

lemma length_filter_eq_distinct:
  "distinct xs \<Longrightarrow> j \<in> set xs \<Longrightarrow> length (filter (\<lambda>c. c = j) xs) = 1"
  by (induction xs) (auto simp: filter_empty_conv)

lemma disconnect_info:
  "connection_info (disconnect c m) x =
     (if x = c \<and> c \<in> set (active_connections m) then None else connection_info m x)"
  by (simp add: disconnect_def)

lemma fold_disconnect_info_other:
  "x \<notin> set ds \<Longrightarrow> connection_info (fold disconnect ds m) x = connection_info m x"
  by (induction ds arbitrary: m) (simp_all add: disconnect_info)

lemma fold_disconnect_info_dropped:
  "distinct ds \<Longrightarrow> set ds \<subseteq> set (active_connections m) \<Longrightarrow> x \<in> set ds \<Longrightarrow>
   connection_info (fold disconnect ds m) x = None"
proof (induction ds arbitrary: m)
  case Nil
  then show ?case by simp
next
  case (Cons d ds)
  have sub: "set ds \<subseteq> set (active_connections (disconnect d m))"
  proof
    fix y assume y: "y \<in> set ds"
    with Cons.prems have "y \<noteq> d" "y \<in> set (active_connections m)" by auto
    then show "y \<in> set (active_connections (disconnect d m))"
      by (simp add: disconnect_connections in_set_remove1)
  qed
  show ?case
  proof (cases "x = d")
    case True
    with Cons.prems have "x \<notin> set ds" by simp
    from fold_disconnect_info_other [OF this, of "disconnect d m"] True Cons.prems
    show ?thesis by (simp add: disconnect_info)
  next
    case False
    with Cons.prems have "x \<in> set ds" "distinct ds" by simp_all
    from Cons.IH [OF this(2) sub this(1)] show ?thesis by simp
  qed
qed

text \<open>
  Claim C6. A broadcast to K live subscribers (distinct connections, all connected), where
  the send to subscriber j raises and no other does: the message is delivered to each of
  the K-1 others, in the order of the list; j is removed from the active connections
  and from the connection info; and the subscriber count afterwards is K-1.
\<close>

theorem broadcast_isolates_failure:
  assumes "distinct (active_connections m)"
    and "j \<in> set (active_connections m)"
    and "\<forall>c \<in> set (active_connections m). client_state c"
    and "\<forall>c \<in> set (active_connections m). send_raises c \<longleftrightarrow> c = j"
  shows "fst (broadcast client_state send_raises message m) =
           map (\<lambda>c. (c, message)) (filter (\<lambda>c. c \<noteq> j) (active_connections m))
         \<and> active_connections (snd (broadcast client_state send_raises message m)) =
             filter (\<lambda>c. c \<noteq> j) (active_connections m)
         \<and> j \<notin> set (active_connections (snd (broadcast client_state send_raises message m)))
         \<and> connection_info (snd (broadcast client_state send_raises message m)) j = None
         \<and> get_connection_count (snd (broadcast client_state send_raises message m)) + 1 =
             get_connection_count m
         \<and> length (fst (broadcast client_state send_raises message m)) + 1 =
             get_connection_count m"
proof -
  let ?xs = "active_connections m"
  have f: "filter (\<lambda>c. client_state c \<and> \<not> send_raises c) ?xs = filter (\<lambda>c. c \<noteq> j) ?xs"
    using assms(3,4) by (intro filter_cong) auto
  have g: "filter (\<lambda>c. \<not> (client_state c \<and> \<not> send_raises c)) ?xs = filter (\<lambda>c. c = j) ?xs"
    using assms(3,4) by (intro filter_cong) auto
  have len: "length (filter (\<lambda>c. c \<noteq> j) ?xs) + 1 = length ?xs"
  proof -
    have "length (filter (\<lambda>c. c = j) ?xs) = 1"
      using assms(1,2) by (rule length_filter_eq_distinct)
    moreover have "length (filter (\<lambda>c. c = j) ?xs) + length (filter (\<lambda>c. \<not> c = j) ?xs) = length ?xs"
      by (rule sum_length_filter_compl)
    ultimately show ?thesis by simp
  qed
  have info: "connection_info (snd (broadcast client_state send_raises message m)) j = None"
  proof -
    have d: "distinct (filter (\<lambda>c. c = j) ?xs)" using assms(1) by simp
    have s: "set (filter (\<lambda>c. c = j) ?xs) \<subseteq> set ?xs" by auto
    have i: "j \<in> set (filter (\<lambda>c. c = j) ?xs)" using assms(2) by simp
    from fold_disconnect_info_dropped [OF d s i]
    show ?thesis
      using broadcast_loop_disconnected [of client_state send_raises message ?xs] g
      by (cases "broadcast_loop client_state send_raises message ?xs") (simp add: broadcast_def)
  qed
  show ?thesis
    using broadcast_delivered [of client_state send_raises message m]
      broadcast_connections [of client_state send_raises message m] f len info
    by (simp add: get_connection_count_def)
qed

theorem broadcast_isolates_failure_witness:
  "distinct (active_connections hub3)
   \<and> 2 \<in> set (active_connections hub3)
   \<and> fst (broadcast (\<lambda>c. True) (\<lambda>c. c = 2) ''alert'' hub3) = [(1, ''alert''), (3, ''alert'')]
   \<and> active_connections (snd (broadcast (\<lambda>c. True) (\<lambda>c. c = 2) ''alert'' hub3)) = [1, 3]
   \<and> get_connection_count hub3 = 3"
proof -
  have xs: "active_connections hub3 = [1, 2, 3]" by (simp add: hub3_def connect_def)
  have h1: "distinct (active_connections hub3)" by (simp add: xs)
  have h2: "2 \<in> set (active_connections hub3)" by (simp add: xs)
  have h3: "\<forall>c \<in> set (active_connections hub3). (\<lambda>c. True) c" by simp
  have h4: "\<forall>c \<in> set (active_connections hub3). (\<lambda>c. c = 2) c \<longleftrightarrow> c = 2" by simp
  from broadcast_isolates_failure [OF h1 h2 h3 h4, of "''alert''"] h1 h2 xs
  show ?thesis by (simp add: get_connection_count_def)
qed

section \<open>SYN flood detection\<close>

lemma run_detector_append:
  "run_detector d (xs @ ys) =
     (fst (run_detector d xs) @ fst (run_detector (snd (run_detector d xs)) ys),
      snd (run_detector (snd (run_detector d xs)) ys))"
  by (induction xs arbitrary: d) (auto simp: Let_def split: prod.splits)

lemma detect_syn_below:
  assumes "is_syn_to source (target_ip d) p" "syn_flood_count d + 1 \<le> syn_flood_threshold d"
  shows "detect_attack uid now p d = (None, d\<lparr>syn_flood_count := syn_flood_count d + 1\<rparr>)"
  using assms
  by (auto simp: is_syn_to_def detect_attack_def Let_def split: option.splits)

lemma detect_syn_above:
  assumes "is_syn_to source (target_ip d) p" "syn_flood_count d + 1 > syn_flood_threshold d"
  shows "\<exists>a. detect_attack uid now p d = (Some a, d\<lparr>syn_flood_count := 0\<rparr>)
     \<and> attack_type a = ''Flood Attacks'' \<and> threat_level a = ''HIGH'' \<and> source_ip a = source
     \<and> destination_ip a = target_ip d"
  using assms
  by (auto simp: is_syn_to_def detect_attack_def Let_def split: option.splits)

lemma run_syn_below:
  "\<forall>x \<in> set pkts. is_syn_to source (target_ip d) (snd (snd x)) \<Longrightarrow>
   syn_flood_count d + int (length pkts) \<le> syn_flood_threshold d \<Longrightarrow>
   run_detector d pkts =
     (replicate (length pkts) None, d\<lparr>syn_flood_count := syn_flood_count d + int (length pkts)\<rparr>)"
proof (induction pkts arbitrary: d)
  case Nil
  then show ?case by simp
next
  case (Cons x pkts)
  obtain uid now p where x: "x = (uid, now, p)" by (cases x)
  from Cons.prems x have s: "is_syn_to source (target_ip d) p" by simp
  from Cons.prems have b: "syn_flood_count d + 1 \<le> syn_flood_threshold d" by simp
  let ?d1 = "d\<lparr>syn_flood_count := syn_flood_count d + 1\<rparr>"
  have ih: "run_detector ?d1 pkts =
     (replicate (length pkts) None, ?d1\<lparr>syn_flood_count := syn_flood_count ?d1 + int (length pkts)\<rparr>)"
    using Cons.prems by (intro Cons.IH) simp_all
  show ?case
    using detect_syn_below [OF s b, of uid now] ih x by (simp add: add.assoc)
qed


text \<open>
  Claim C2. A detector whose SYN counter is 0 (threshold 50) receives 51 packets, all of
  them TCP packets with the SYN flag alone sent by one source to the monitored target.
  The first 50 calls return nothing and leave the counter at 50; the 51st returns the only
  alert, of attack type Flood Attacks and threat level HIGH, naming the source; and the
  counter is 0 after that call.
\<close>

theorem syn_flood_alert_on_51st:
  assumes "length pkts = 51"
    and "\<forall>x \<in> set pkts. is_syn_to source (target_ip d) (snd (snd x))"
    and "syn_flood_count d = 0"
    and "syn_flood_threshold d = 50"
  shows "\<exists>a. fst (run_detector d pkts) = replicate 50 None @ [Some a]
           \<and> attack_type a = ''Flood Attacks'' \<and> threat_level a = ''HIGH''
           \<and> source_ip a = source \<and> destination_ip a = target_ip d
           \<and> length (filter (\<lambda>t. t \<noteq> None) (fst (run_detector d pkts))) = 1
           \<and> syn_flood_count (snd (run_detector d pkts)) = 0
           \<and> syn_flood_count (snd (run_detector d (butlast pkts))) = 50"
proof -
  from assms(1) have ne: "pkts \<noteq> []" by auto
  then have split: "pkts = butlast pkts @ [last pkts]" by simp
  let ?xs = "butlast pkts"
  obtain uid now p where l: "last pkts = (uid, now, p)" by (cases "last pkts")
  have len: "length ?xs = 50" using assms(1) by simp
  have all: "\<forall>x \<in> set ?xs. is_syn_to source (target_ip d) (snd (snd x))"
    using assms(2) by (auto dest: in_set_butlastD)
  have lastp: "is_syn_to source (target_ip d) p"
    using assms(2) ne l last_in_set [OF ne] by force
  have first: "run_detector d ?xs = (replicate 50 None, d\<lparr>syn_flood_count := 50\<rparr>)"
    using run_syn_below [OF all] len assms(3,4) by simp
  let ?d50 = "d\<lparr>syn_flood_count := 50\<rparr>"
  have lastp': "is_syn_to source (target_ip ?d50) p" using lastp by simp
  have above: "syn_flood_count ?d50 + 1 > syn_flood_threshold ?d50" using assms(4) by simp
  from detect_syn_above [OF lastp' above, of uid now]
  obtain a where a: "detect_attack uid now p ?d50 = (Some a, ?d50\<lparr>syn_flood_count := 0\<rparr>)"
    and props: "attack_type a = ''Flood Attacks''" "threat_level a = ''HIGH''"
      "source_ip a = source" "destination_ip a = target_ip d"
    by auto
  have run: "run_detector d pkts = (replicate 50 None @ [Some a], ?d50\<lparr>syn_flood_count := 0\<rparr>)"
    by (subst split) (simp add: run_detector_append first l a)
  show ?thesis
    using run props first by (intro exI [of _ a]) simp
qed

theorem syn_flood_alert_on_51st_witness:
  "length (replicate 51 (''u'', 0::int, tcp_packet ''10.0.0.5'' ''192.168.100.124'' 2 80)) = 51
   \<and> is_syn_to ''10.0.0.5'' (target_ip ThreatDetector_init)
        (tcp_packet ''10.0.0.5'' ''192.168.100.124'' 2 80)
   \<and> syn_flood_count ThreatDetector_init = 0
   \<and> syn_flood_threshold ThreatDetector_init = 50
   \<and> map (map_option threat_level) (fst (run_detector ThreatDetector_init
         (replicate 51 (''u'', 0, tcp_packet ''10.0.0.5'' ''192.168.100.124'' 2 80))))
       = replicate 50 None @ [Some ''HIGH'']
   \<and> syn_flood_count (snd (run_detector ThreatDetector_init
         (replicate 51 (''u'', 0, tcp_packet ''10.0.0.5'' ''192.168.100.124'' 2 80)))) = 0"
proof -
  let ?p = "tcp_packet ''10.0.0.5'' ''192.168.100.124'' 2 80"
  let ?pkts = "replicate 51 (''u'', 0::int, ?p)"
  have h1: "length ?pkts = 51" by simp
  have s: "is_syn_to ''10.0.0.5'' (target_ip ThreatDetector_init) ?p"
    by (simp add: is_syn_to_def tcp_packet_def ThreatDetector_init_def)
  then have h2: "\<forall>x \<in> set ?pkts. is_syn_to ''10.0.0.5'' (target_ip ThreatDetector_init) (snd (snd x))"
    by simp
  have h3: "syn_flood_count ThreatDetector_init = 0" by (simp add: ThreatDetector_init_def)
  have h4: "syn_flood_threshold ThreatDetector_init = 50" by (simp add: ThreatDetector_init_def)
  from syn_flood_alert_on_51st [OF h1 h2 h3 h4]
  obtain a where "fst (run_detector ThreatDetector_init ?pkts) = replicate 50 None @ [Some a]"
    "threat_level a = ''HIGH''"
    "syn_flood_count (snd (run_detector ThreatDetector_init ?pkts)) = 0"
    by blast
  with h1 s h3 h4 show ?thesis by simp
qed

section \<open>Port scan detection\<close>

lemma detect_other_tcp_below:
  assumes "is_other_tcp_to source (target_ip d) p"
    and "int (length (set_add (dport_of p) (port_scan_ports d))) \<le> port_scan_threshold d"
  shows "detect_attack uid now p d =
           (None, d\<lparr>port_scan_ports := set_add (dport_of p) (port_scan_ports d)\<rparr>)"
  using assms
  by (auto simp: is_other_tcp_to_def dport_of_def detect_attack_def Let_def split: option.splits)

lemma detect_other_tcp_above:
  assumes "is_other_tcp_to source (target_ip d) p"
    and "int (length (set_add (dport_of p) (port_scan_ports d))) > port_scan_threshold d"
  shows "\<exists>a. detect_attack uid now p d = (Some a, d\<lparr>port_scan_ports := []\<rparr>)
     \<and> attack_type a = ''Reconnaissance'' \<and> threat_level a = ''MEDIUM''
     \<and> source_ip a = source \<and> destination_ip a = target_ip d
     \<and> scanned_ports a =
         map (\<lambda>p. PInt (int p)) (last_n 10 (set_add (dport_of p) (port_scan_ports d)))
     \<and> total_ports a = PInt (int (length (set_add (dport_of p) (port_scan_ports d))))"
  using assms
  by (auto simp: is_other_tcp_to_def dport_of_def detect_attack_def Let_def scanned_ports_def
        total_ports_def dict_get_def split: option.splits)

lemma detect_syn_leaves_ports:
  assumes "is_syn_to source (target_ip d) p"
  shows "port_scan_ports (snd (detect_attack uid now p d)) = port_scan_ports d"
  using assms
  by (auto simp: is_syn_to_def detect_attack_def Let_def split: option.splits)

lemma run_other_tcp_below:
  "\<forall>x \<in> set pkts. is_other_tcp_to source (target_ip d) (snd (snd x)) \<Longrightarrow>
   distinct (port_scan_ports d @ map (\<lambda>x. dport_of (snd (snd x))) pkts) \<Longrightarrow>
   int (length (port_scan_ports d) + length pkts) \<le> port_scan_threshold d \<Longrightarrow>
   run_detector d pkts =
     (replicate (length pkts) None,
      d\<lparr>port_scan_ports := port_scan_ports d @ map (\<lambda>x. dport_of (snd (snd x))) pkts\<rparr>)"
proof (induction pkts arbitrary: d)
  case Nil
  then show ?case by simp
next
  case (Cons x pkts)
  obtain uid now p where x: "x = (uid, now, p)" by (cases x)
  from Cons.prems x have s: "is_other_tcp_to source (target_ip d) p" by simp
  from Cons.prems x have fresh: "dport_of p \<notin> set (port_scan_ports d)" by auto
  then have add: "set_add (dport_of p) (port_scan_ports d) = port_scan_ports d @ [dport_of p]"
    by (simp add: set_add_def)
  from Cons.prems have b: "int (length (set_add (dport_of p) (port_scan_ports d))) \<le> port_scan_threshold d"
    by (simp add: add)
  let ?d1 = "d\<lparr>port_scan_ports := port_scan_ports d @ [dport_of p]\<rparr>"
  have ih: "run_detector ?d1 pkts =
     (replicate (length pkts) None,
      ?d1\<lparr>port_scan_ports := port_scan_ports ?d1 @ map (\<lambda>x. dport_of (snd (snd x))) pkts\<rparr>)"
    using Cons.prems x by (intro Cons.IH) simp_all
  show ?case
    using detect_other_tcp_below [OF s b, of uid now] ih x by (simp add: add)
qed

lemma port_scan_run:
  assumes "length pkts = 11"
    and "\<forall>x \<in> set pkts. is_other_tcp_to source (target_ip d) (snd (snd x))"
    and "distinct (map (\<lambda>x. dport_of (snd (snd x))) pkts)"
    and "port_scan_ports d = []"
    and "port_scan_threshold d = 10"
  shows "\<exists>a. fst (run_detector d pkts) = replicate 10 None @ [Some a]
           \<and> attack_type a = ''Reconnaissance'' \<and> threat_level a = ''MEDIUM''
           \<and> source_ip a = source
           \<and> length (filter (\<lambda>t. t \<noteq> None) (fst (run_detector d pkts))) = 1
           \<and> set (port_scan_ports (snd (run_detector d (butlast pkts)))) =
               set (map (\<lambda>x. dport_of (snd (snd x))) (butlast pkts))
           \<and> length (scanned_ports a) = 10
           \<and> distinct (scanned_ports a)
           \<and> set (scanned_ports a) \<subseteq> (\<lambda>x. PInt (int (dport_of (snd (snd x))))) ` set pkts
           \<and> total_ports a = PInt 11
           \<and> port_scan_ports (snd (run_detector d pkts)) = []"
proof -
  let ?port = "\<lambda>x. dport_of (snd (snd x))"
  from assms(1) have ne: "pkts \<noteq> []" by auto
  then have split: "pkts = butlast pkts @ [last pkts]" by simp
  let ?xs = "butlast pkts"
  obtain uid now p where l: "last pkts = (uid, now, p)" by (cases "last pkts")
  have len: "length ?xs = 10" using assms(1) by simp
  have all: "\<forall>x \<in> set ?xs. is_other_tcp_to source (target_ip d) (snd (snd x))"
    using assms(2) by (auto dest: in_set_butlastD)
  have lastp: "is_other_tcp_to source (target_ip d) p"
    using assms(2) ne l last_in_set [OF ne] by force
  have dall: "distinct (map ?port ?xs @ [dport_of p])"
    using assms(3) l by (subst (asm) split) simp
  have dxs: "distinct (port_scan_ports d @ map ?port ?xs)"
    using dall assms(4) by simp
  have first: "run_detector d ?xs = (replicate 10 None, d\<lparr>port_scan_ports := map ?port ?xs\<rparr>)"
    using run_other_tcp_below [OF all dxs] len assms(4,5) by simp
  let ?d10 = "d\<lparr>port_scan_ports := map ?port ?xs\<rparr>"
  have allports: "map ?port ?xs @ [dport_of p] = map ?port pkts"
    using l by (subst (2) split) simp
  have freshp: "dport_of p \<notin> set (map ?port ?xs)" using dall by simp
  have add: "set_add (dport_of p) (map ?port ?xs) = map ?port pkts"
    unfolding set_add_def using freshp allports by (simp only: if_False)
  have lastp': "is_other_tcp_to source (target_ip ?d10) p" using lastp by simp
  have above: "int (length (set_add (dport_of p) (port_scan_ports ?d10))) > port_scan_threshold ?d10"
    using assms(5) assms(1) by (simp add: add)
  from detect_other_tcp_above [OF lastp' above, of uid now]
  obtain a where a: "detect_attack uid now p ?d10 = (Some a, ?d10\<lparr>port_scan_ports := []\<rparr>)"
    and props: "attack_type a = ''Reconnaissance''" "threat_level a = ''MEDIUM''"
      "source_ip a = source"
    and sc: "scanned_ports a = map (\<lambda>p. PInt (int p)) (last_n 10 (map ?port pkts))"
    and tot: "total_ports a = PInt (int (length (map ?port pkts)))"
    by (auto simp: add)
  have run: "run_detector d pkts = (replicate 10 None @ [Some a], ?d10\<lparr>port_scan_ports := []\<rparr>)"
    by (subst split) (simp add: run_detector_append first l a)
  have inj: "inj_on (\<lambda>p. PInt (int p)) A" for A :: "nat set" by (simp add: inj_on_def)
  have l10: "length (scanned_ports a) = 10" using assms(1) by (simp add: sc last_n_def)
  have d10: "distinct (scanned_ports a)"
    using assms(3) by (simp add: sc last_n_def distinct_map inj)
  have sub: "set (scanned_ports a) \<subseteq> (\<lambda>x. PInt (int (dport_of (snd (snd x))))) ` set pkts"
    using set_drop_subset [of "length (map ?port pkts) - 10" "map ?port pkts"]
    by (auto simp: sc last_n_def)
  show ?thesis
    using run props first l10 d10 sub tot assms(1) by (intro exI [of _ a]) simp
qed

text \<open>
  Claim C3, as the code has it. A TCP packet to the target whose flags are not the SYN flag
  alone has its destination port added to the port set (a SYN-only packet goes to the
  flood counter and leaves the port set alone). From an empty port set (threshold 10),
  eleven such packets of one source to eleven distinct ports give nothing for the first
  ten and, on the eleventh, the only alert: attack type Reconnaissance, threat level
  MEDIUM, \<^verbatim>\<open>total_ports\<close> 11 and, under \<^verbatim>\<open>scanned_ports\<close>, ten distinct ports among the
  eleven scanned (the code lists the last ten of the set). The port set is empty after.
\<close>

theorem port_scan_alert_on_11th:
  assumes "length pkts = 11"
    and "\<forall>x \<in> set pkts. is_other_tcp_to source (target_ip d) (snd (snd x))"
    and "distinct (map (\<lambda>x. dport_of (snd (snd x))) pkts)"
    and "port_scan_ports d = []"
    and "port_scan_threshold d = 10"
  shows "\<exists>a. fst (run_detector d pkts) = replicate 10 None @ [Some a]
           \<and> attack_type a = ''Reconnaissance'' \<and> threat_level a = ''MEDIUM''
           \<and> source_ip a = source
           \<and> length (filter (\<lambda>t. t \<noteq> None) (fst (run_detector d pkts))) = 1
           \<and> set (port_scan_ports (snd (run_detector d (butlast pkts)))) =
               set (map (\<lambda>x. dport_of (snd (snd x))) (butlast pkts))
           \<and> length (scanned_ports a) = 10
           \<and> distinct (scanned_ports a)
           \<and> set (scanned_ports a) \<subseteq> (\<lambda>x. PInt (int (dport_of (snd (snd x))))) ` set pkts
           \<and> total_ports a = PInt 11
           \<and> port_scan_ports (snd (run_detector d pkts)) = []"
  using port_scan_run [OF assms] .

lemma scan11_facts:
  "length scan11 = 11"
  "\<forall>x \<in> set scan11. is_other_tcp_to ''10.0.0.5'' (target_ip ThreatDetector_init) (snd (snd x))"
  "distinct (map (\<lambda>x. dport_of (snd (snd x))) scan11)"
  "port_scan_ports ThreatDetector_init = []"
  "port_scan_threshold ThreatDetector_init = 10"
proof -
  show "length scan11 = 11" by (simp add: scan11_def)
  show "\<forall>x \<in> set scan11. is_other_tcp_to ''10.0.0.5'' (target_ip ThreatDetector_init) (snd (snd x))"
    by (auto simp: scan11_def is_other_tcp_to_def tcp_packet_def ThreatDetector_init_def)
  have ports: "map (\<lambda>x. dport_of (snd (snd x))) scan11 = [1..<12]"
    by (simp add: scan11_def dport_of_def tcp_packet_def comp_def)
  show "distinct (map (\<lambda>x. dport_of (snd (snd x))) scan11)" by (simp add: ports)
  show "port_scan_ports ThreatDetector_init = []" by (simp add: ThreatDetector_init_def)
  show "port_scan_threshold ThreatDetector_init = 10" by (simp add: ThreatDetector_init_def)
qed

text \<open>
  The claim as first worded fails twice: the SYN-only packet to port 80 is a TCP packet
  the detector evaluates, and the port set is still empty after it; and the alert of the
  scan of ports 1 to 11 lists ten ports while eleven were scanned.
\<close>

theorem port_scan_claim_counterexample:
  "port_scan_ports (snd (detect_attack ''u'' 0 syn80 ThreatDetector_init)) = []
   \<and> map (map_option (\<lambda>a. length (scanned_ports a))) (fst (run_detector ThreatDetector_init scan11))
       = replicate 10 None @ [Some 10]
   \<and> map (map_option total_ports) (fst (run_detector ThreatDetector_init scan11))
       = replicate 10 None @ [Some (PInt 11)]"
proof -
  have s: "is_syn_to ''10.0.0.5'' (target_ip ThreatDetector_init) syn80"
    by (simp add: is_syn_to_def syn80_def tcp_packet_def ThreatDetector_init_def)
  from detect_syn_leaves_ports [OF s, of "''u''" 0]
  have p1: "port_scan_ports (snd (detect_attack ''u'' 0 syn80 ThreatDetector_init)) = []"
    by (simp add: scan11_facts(4))
  from port_scan_run [OF scan11_facts]
  obtain a where "fst (run_detector ThreatDetector_init scan11) = replicate 10 None @ [Some a]"
    "length (scanned_ports a) = 10" "total_ports a = PInt 11"
    by blast
  with p1 show ?thesis by simp
qed

theorem port_scan_alert_on_11th_witness:
  "length scan11 = 11
   \<and> distinct (map (\<lambda>x. dport_of (snd (snd x))) scan11)
   \<and> port_scan_ports ThreatDetector_init = []
   \<and> port_scan_threshold ThreatDetector_init = 10
   \<and> map (map_option threat_level) (fst (run_detector ThreatDetector_init scan11))
       = replicate 10 None @ [Some ''MEDIUM'']
   \<and> port_scan_ports (snd (run_detector ThreatDetector_init scan11)) = []"
proof -
  from port_scan_alert_on_11th [OF scan11_facts]
  obtain a where "fst (run_detector ThreatDetector_init scan11) = replicate 10 None @ [Some a]"
    "threat_level a = ''MEDIUM''"
    "port_scan_ports (snd (run_detector ThreatDetector_init scan11)) = []"
    by blast
  with scan11_facts show ?thesis by simp
qed

section \<open>Evidence snapshots\<close>














section \<open>The audit chain\<close>

subsection \<open>Mining results and chain validity\<close>

lemma startswith_zeros_mono:
  assumes "startswith h (zeros d)" "d' \<le> d"
  shows "startswith h (zeros d')"
proof -
  from assms(1) have t: "take d h = replicate d (CHR ''0'')"
    by (simp add: startswith_def zeros_def)
  have "take d' h = take d' (take d h)" using assms(2) by (simp add: min_def)
  also have "\<dots> = replicate d' (CHR ''0'')" using assms(2) by (simp add: t min_def)
  finally show ?thesis by (simp add: startswith_def zeros_def)
qed

lemma mine_block_result:
  assumes "mine_block H d b = Some y"
  shows "fst y = calculate_hash H (fst (snd y))
   \<and> startswith (fst y) (zeros (snd (snd y)))
   \<and> snd (snd y) \<le> d
   \<and> (1 \<le> d \<longrightarrow> 1 \<le> snd (snd y))
   \<and> fst (snd y) = b\<lparr>nonce := nonce (fst (snd y))\<rparr>"
proof -
  let ?Q = "\<lambda>(H::hash_fn) (d::nat) (b::AuditBlock) (y::string \<times> AuditBlock \<times> nat).
      fst y = calculate_hash H (fst (snd y))
      \<and> startswith (fst y) (zeros (snd (snd y)))
      \<and> snd (snd y) \<le> d
      \<and> (1 \<le> d \<longrightarrow> 1 \<le> snd (snd y))
      \<and> fst (snd y) = b\<lparr>nonce := nonce (fst (snd y))\<rparr>"
  have "?Q H d b y"
  proof (rule mine_block.raw_induct [where P = ?Q, OF _ assms])
    fix mine :: "hash_fn \<Rightarrow> nat \<Rightarrow> AuditBlock \<Rightarrow> (string \<times> AuditBlock \<times> nat) option"
      and H d b y
    assume IH: "\<And>H d b y. mine H d b = Some y \<Longrightarrow> ?Q H d b y"
    assume body: "(if startswith (calculate_hash H b) (zeros d)
        then Some (calculate_hash H b, b, d)
        else if 1000000 < nonce b + 1
             then mine H (max 1 (d - 1)) (b\<lparr>nonce := 0\<rparr>)
             else mine H d (b\<lparr>nonce := nonce b + 1\<rparr>)) = Some y"
    show "?Q H d b y"
    proof (cases "startswith (calculate_hash H b) (zeros d)")
      case True
      with body show ?thesis by auto
    next
      case False
      show ?thesis
      proof (cases "1000000 < nonce b + 1")
        case True
        with False body have "mine H (max 1 (d - 1)) (b\<lparr>nonce := 0\<rparr>) = Some y" by simp
        moreover have "d \<noteq> 0"
        proof
          assume "d = 0"
          with False show False by (simp add: startswith_def zeros_def)
        qed
        ultimately show ?thesis using IH [of H "max 1 (d - 1)" "b\<lparr>nonce := 0\<rparr>" y]
          by (auto simp: max_def split: if_splits)
      next
        case n: False
        with False body have "mine H d (b\<lparr>nonce := nonce b + 1\<rparr>) = Some y" by simp
        from IH [OF this] show ?thesis by auto
      qed
    qed
  qed
  then show ?thesis by blast
qed

lemma is_valid_block_mono:
  "is_valid_block H d b p \<Longrightarrow> d' \<le> d \<Longrightarrow> is_valid_block H d' b p"
  by (auto simp: is_valid_block_def split: if_splits intro: startswith_zeros_mono)

lemma chain_valid_loop_mono:
  "chain_valid_loop H d xs \<Longrightarrow> d' \<le> d \<Longrightarrow> chain_valid_loop H d' xs"
  by (induction H d xs rule: chain_valid_loop.induct)
     (auto split: if_splits intro: is_valid_block_mono)

lemma chain_valid_loop_append:
  "chain_valid_loop H d (xs @ [x]) =
     (chain_valid_loop H d xs \<and> (xs \<noteq> [] \<longrightarrow> is_valid_block H d x (last xs)))"
  by (induction H d xs rule: chain_valid_loop.induct) auto

lemma chain_valid_loop_nth:
  "chain_valid_loop H d xs =
     (\<forall>i. 0 < i \<and> i < length xs \<longrightarrow> is_valid_block H d (xs ! i) (xs ! (i - 1)))"
proof (induction H d xs rule: chain_valid_loop.induct)
  case (1 H d p c rest)
  show ?case
  proof
    assume l: "chain_valid_loop H d (p # c # rest)"
    then have v: "is_valid_block H d c p" and r: "chain_valid_loop H d (c # rest)"
      by (auto split: if_splits)
    show "\<forall>i. 0 < i \<and> i < length (p # c # rest) \<longrightarrow>
            is_valid_block H d ((p # c # rest) ! i) ((p # c # rest) ! (i - 1))"
    proof (intro allI impI)
      fix i assume i: "0 < i \<and> i < length (p # c # rest)"
      show "is_valid_block H d ((p # c # rest) ! i) ((p # c # rest) ! (i - 1))"
      proof (cases "i = 1")
        case True
        with v show ?thesis by simp
      next
        case False
        with i obtain j where j: "i = Suc j" "0 < j" "j < length (c # rest)"
          by (cases i) auto
        from r 1 v have "\<forall>i. 0 < i \<and> i < length (c # rest) \<longrightarrow>
            is_valid_block H d ((c # rest) ! i) ((c # rest) ! (i - 1))" by simp
        with j have "is_valid_block H d ((c # rest) ! j) ((c # rest) ! (j - 1))" by blast
        with j show ?thesis by (cases j) simp_all
      qed
    qed
  next
    assume a: "\<forall>i. 0 < i \<and> i < length (p # c # rest) \<longrightarrow>
            is_valid_block H d ((p # c # rest) ! i) ((p # c # rest) ! (i - 1))"
    from a [rule_format, of 1] have v: "is_valid_block H d c p" by simp
    have "\<forall>i. 0 < i \<and> i < length (c # rest) \<longrightarrow>
            is_valid_block H d ((c # rest) ! i) ((c # rest) ! (i - 1))"
    proof (intro allI impI)
      fix i assume i: "0 < i \<and> i < length (c # rest)"
      from a [rule_format, of "Suc i"] i
      show "is_valid_block H d ((c # rest) ! i) ((c # rest) ! (i - 1))"
        by (cases i) simp_all
    qed
    with 1 v show "chain_valid_loop H d (p # c # rest)" by simp
  qed
qed simp_all

lemma create_genesis_valid:
  "create_genesis_block H now \<lparr>chain = [], difficulty = d\<rparr> = Some s \<Longrightarrow>
   is_chain_valid H s \<and> length (chain s) = 1"
  by (auto simp: create_genesis_block_def is_chain_valid_def Let_def split: option.splits)

lemma add_block_valid:
  assumes "is_chain_valid H s" "add_block H now payload s = Some (r, s')"
  shows "is_chain_valid H s'"
proof (cases "chain s = []")
  case True
  with assms show ?thesis by (simp add: add_block_def)
next
  case False
  from assms(2) False obtain h m d where
    m: "mine_block H (difficulty s) \<lparr>index = int (length (chain s)), block_timestamp = now,
          data = payload, previous_hash = hash (last (chain s)), nonce = 0, hash = ''''\<rparr>
        = Some (h, m, d)"
    by (auto simp: add_block_def Let_def split: option.splits)
  from mine_block_result [OF m] have le: "d \<le> difficulty s" by simp
  from assms(1) le have old: "chain_valid_loop H d (chain s)"
    by (auto simp: is_chain_valid_def intro: chain_valid_loop_mono)
  from assms(2) False m show ?thesis
    by (auto simp: add_block_def Let_def is_chain_valid_def chain_valid_loop_append old
             split: if_splits)
qed

lemma built_valid: "built H s \<Longrightarrow> is_chain_valid H s"
proof (induction rule: built.induct)
  case (built_init now s)
  then show ?case by (simp add: BlockchainAudit_init_def create_genesis_valid)
next
  case (built_add s now payload r s')
  then show ?case by (blast intro: add_block_valid)
qed

lemma mutation_detected:
  assumes "0 < i" "i < length xs"
    and "calculate_hash H ((xs ! i)\<lparr>data := payload\<rparr>) \<noteq> hash (xs ! i)"
  shows "\<not> chain_valid_loop H d (xs[i := (xs ! i)\<lparr>data := payload\<rparr>])"
proof
  assume "chain_valid_loop H d (xs[i := (xs ! i)\<lparr>data := payload\<rparr>])"
  then have "\<forall>k. 0 < k \<and> k < length (xs[i := (xs ! i)\<lparr>data := payload\<rparr>]) \<longrightarrow>
      is_valid_block H d ((xs[i := (xs ! i)\<lparr>data := payload\<rparr>]) ! k)
        ((xs[i := (xs ! i)\<lparr>data := payload\<rparr>]) ! (k - 1))"
    by (simp only: chain_valid_loop_nth)
  from this [rule_format, of i] assms(1,2)
  have "is_valid_block H d ((xs ! i)\<lparr>data := payload\<rparr>)
          ((xs[i := (xs ! i)\<lparr>data := payload\<rparr>]) ! (i - 1))"
    by simp
  with assms(3) show False by (auto simp: is_valid_block_def split: if_splits)
qed

lemma genesis_mutation_undetected:
  assumes "chain_valid_loop H d xs"
  shows "chain_valid_loop H d (xs[0 := (xs ! 0)\<lparr>data := payload\<rparr>])"
proof (cases xs)
  case Nil
  then show ?thesis by simp
next
  case (Cons g rest)
  with assms show ?thesis
    by (cases rest) (auto simp: is_valid_block_def split: if_splits)
qed

subsection \<open>The demonstration chain\<close>

lemma zeros4: "zeros 4 = ''0000''"
  by (simp add: zeros_def numeral_eq_Suc)

lemma demo_init: "BlockchainAudit_init H_demo ''t0'' = Some demo_chain0"
  by (subst BlockchainAudit_init_def, subst create_genesis_block_def, subst mine_block.simps)
     (simp add: calculate_hash_def H_demo_def genesis_data_def startswith_def zeros4
        demo_chain0_def demo_genesis_def Let_def)

lemma demo_add:
  "add_block H_demo ''t1'' demo_payload demo_chain0 = Some (Inr demo_block1, demo_chain1)"
  by (subst add_block_def, subst mine_block.simps)
     (simp add: calculate_hash_def H_demo_def demo_payload_def startswith_def zeros4
        demo_chain0_def demo_chain1_def demo_genesis_def demo_block1_def is_valid_block_def
        Let_def)

lemma demo_built: "built H_demo demo_chain1"
  by (rule built_add [OF built_init [OF demo_init] demo_add])

subsection \<open>Validity of built chains\<close>

text \<open>
  Claim C1, as the code has it. A chain built by the constructor and calls of \<open>add_block\<close>
  alone passes \<open>is_chain_valid\<close>, and satisfies the invariant: every block after the
  first links to the hash of the block before it, its hash is the hash recomputed from
  it, and its hash meets the difficulty of the chain. Every call of \<open>add_block\<close> that
  returns keeps the chain valid. Changing the payload of a block after the first, so
  that the recomputed hash differs from the stored one, makes \<open>is_chain_valid\<close> false.
\<close>

theorem built_chain_valid:
  assumes "built H s"
  shows "is_chain_valid H s
    \<and> (\<forall>i. 0 < i \<and> i < length (chain s) \<longrightarrow>
          previous_hash (chain s ! i) = hash (chain s ! (i - 1))
          \<and> hash (chain s ! i) = calculate_hash H (chain s ! i)
          \<and> startswith (hash (chain s ! i)) (zeros (difficulty s)))
    \<and> (\<forall>now payload r s'. add_block H now payload s = Some (r, s') \<longrightarrow> is_chain_valid H s')
    \<and> (\<forall>i payload. 0 < i \<and> i < length (chain s)
          \<and> calculate_hash H ((chain s ! i)\<lparr>data := payload\<rparr>) \<noteq> hash (chain s ! i) \<longrightarrow>
          \<not> is_chain_valid H (s\<lparr>chain := (chain s)[i := (chain s ! i)\<lparr>data := payload\<rparr>]\<rparr>))"
proof -
  have v: "is_chain_valid H s" by (rule built_valid [OF assms])
  have inv: "\<forall>i. 0 < i \<and> i < length (chain s) \<longrightarrow>
          previous_hash (chain s ! i) = hash (chain s ! (i - 1))
          \<and> hash (chain s ! i) = calculate_hash H (chain s ! i)
          \<and> startswith (hash (chain s ! i)) (zeros (difficulty s))"
  proof (intro allI impI)
    fix i assume i: "0 < i \<and> i < length (chain s)"
    from v have "\<forall>k. 0 < k \<and> k < length (chain s) \<longrightarrow>
        is_valid_block H (difficulty s) (chain s ! k) (chain s ! (k - 1))"
      by (simp only: is_chain_valid_def chain_valid_loop_nth)
    from this [rule_format, OF i]
    show "previous_hash (chain s ! i) = hash (chain s ! (i - 1))
          \<and> hash (chain s ! i) = calculate_hash H (chain s ! i)
          \<and> startswith (hash (chain s ! i)) (zeros (difficulty s))"
      by (auto simp: is_valid_block_def split: if_splits)
  qed
  have pres: "\<forall>now payload r s'. add_block H now payload s = Some (r, s') \<longrightarrow> is_chain_valid H s'"
    using add_block_valid [OF v] by blast
  have mut: "\<forall>i payload. 0 < i \<and> i < length (chain s)
          \<and> calculate_hash H ((chain s ! i)\<lparr>data := payload\<rparr>) \<noteq> hash (chain s ! i) \<longrightarrow>
          \<not> is_chain_valid H (s\<lparr>chain := (chain s)[i := (chain s ! i)\<lparr>data := payload\<rparr>]\<rparr>)"
    using mutation_detected [of _ "chain s" H _ "difficulty s"]
    by (simp add: is_chain_valid_def)
  from v inv pres mut show ?thesis by blast
qed

theorem built_chain_valid_witness:
  "built H_demo demo_chain1
   \<and> is_chain_valid H_demo demo_chain1
   \<and> \<not> is_chain_valid H_demo
         (demo_chain1\<lparr>chain := (chain demo_chain1)
            [1 := (chain demo_chain1 ! 1)\<lparr>data := tampered_payload\<rparr>]\<rparr>)"
proof -
  have h: "0 < (1::nat) \<and> 1 < length (chain demo_chain1)
      \<and> calculate_hash H_demo ((chain demo_chain1 ! 1)\<lparr>data := tampered_payload\<rparr>)
          \<noteq> hash (chain demo_chain1 ! 1)"
    by (simp add: demo_chain1_def demo_block1_def calculate_hash_def H_demo_def
          tampered_payload_def)
  from built_chain_valid [OF demo_built] h demo_built show ?thesis by blast
qed

text \<open>
  The genesis block is outside this: the validation starts at position 1 and never
  recomputes the hash of the first block. In the chain below the payload of the genesis
  block is changed, its recomputed hash differs from the stored one, and the chain still
  passes. (By \<open>genesis_mutation_undetected\<close> this is so for every digest function.)
\<close>

theorem genesis_mutation_counterexample:
  "built H_demo demo_chain1
   \<and> calculate_hash H_demo ((chain demo_chain1 ! 0)\<lparr>data := tampered_payload\<rparr>)
       \<noteq> hash (chain demo_chain1 ! 0)
   \<and> is_chain_valid H_demo
       (demo_chain1\<lparr>chain := (chain demo_chain1)
          [0 := (chain demo_chain1 ! 0)\<lparr>data := tampered_payload\<rparr>]\<rparr>)"
proof -
  have a: "calculate_hash H_demo ((chain demo_chain1 ! 0)\<lparr>data := tampered_payload\<rparr>)
       \<noteq> hash (chain demo_chain1 ! 0)"
    by (simp add: demo_chain1_def demo_genesis_def calculate_hash_def H_demo_def
          tampered_payload_def)
  have "chain_valid_loop H_demo (difficulty demo_chain1) (chain demo_chain1)"
    using built_valid [OF demo_built] by (simp add: is_chain_valid_def)
  from genesis_mutation_undetected [OF this, of tampered_payload]
  have b: "is_chain_valid H_demo
       (demo_chain1\<lparr>chain := (chain demo_chain1)
          [0 := (chain demo_chain1 ! 0)\<lparr>data := tampered_payload\<rparr>]\<rparr>)"
    by (simp add: is_chain_valid_def)
  from demo_built a b show ?thesis by blast
qed

subsection \<open>Import of a chain\<close>

lemma demo_init_any: "BlockchainAudit_init H_demo now =
    Some \<lparr>chain = [demo_genesis\<lparr>block_timestamp := now\<rparr>], difficulty = 4\<rparr>"
  by (subst BlockchainAudit_init_def, subst create_genesis_block_def, subst mine_block.simps)
     (simp add: calculate_hash_def H_demo_def genesis_data_def startswith_def zeros4
        demo_genesis_def Let_def)

lemma import_chain_result:
  assumes "str_lower format = ''json''"
    and "json_loads chain_data = Some imported"
    and "BlockchainAudit_init H now = Some temp"
  shows "import_chain H json_loads now chain_data format s =
     (if \<exists>i. 0 < i \<and> i < length imported
            \<and> \<not> is_valid_block H (difficulty temp) (imported ! i) (imported ! (i - 1))
      then Some (Some ValueError, s)
      else Some (None, s\<lparr>chain := imported\<rparr>))"
proof -
  have "is_chain_valid H (temp\<lparr>chain := imported\<rparr>) =
      (\<not> (\<exists>i. 0 < i \<and> i < length imported
            \<and> \<not> is_valid_block H (difficulty temp) (imported ! i) (imported ! (i - 1))))"
    by (auto simp: is_chain_valid_def chain_valid_loop_nth)
  with assms show ?thesis by (simp add: import_chain_def Let_def)
qed

lemma str_lower_JSON: "str_lower ''JSON'' = ''json''"
  by (simp add: str_lower_def ascii_lower_def)

lemma import_tampered_genesis:
  "import_chain H_demo (\<lambda>text. Some [demo_genesis\<lparr>data := tampered_payload\<rparr>, demo_block1])
      ''t9'' ''[...]'' ''json'' demo_chain0
   = Some (None, demo_chain0\<lparr>chain := [demo_genesis\<lparr>data := tampered_payload\<rparr>, demo_block1]\<rparr>)"
proof -
  have l: "str_lower ''json'' = ''json''" by (simp add: str_lower_def ascii_lower_def)
  have j: "(\<lambda>text::string. Some [demo_genesis\<lparr>data := tampered_payload\<rparr>, demo_block1]) ''[...]''
      = Some [demo_genesis\<lparr>data := tampered_payload\<rparr>, demo_block1]" by simp
  have v: "is_valid_block H_demo 4 demo_block1 (demo_genesis\<lparr>data := tampered_payload\<rparr>)"
    by (simp add: is_valid_block_def demo_block1_def demo_genesis_def calculate_hash_def
          H_demo_def demo_payload_def startswith_def zeros4)
  have "\<not> (\<exists>i. 0 < i \<and> i < length [demo_genesis\<lparr>data := tampered_payload\<rparr>, demo_block1]
        \<and> \<not> is_valid_block H_demo 4
             ([demo_genesis\<lparr>data := tampered_payload\<rparr>, demo_block1] ! i)
             ([demo_genesis\<lparr>data := tampered_payload\<rparr>, demo_block1] ! (i - 1)))"
    using v by (auto simp: less_Suc_eq)
  with import_chain_result [where
      json_loads = "\<lambda>text. Some [demo_genesis\<lparr>data := tampered_payload\<rparr>, demo_block1]"
      and chain_data = "''[...]''" and s = demo_chain0, OF l j demo_init_any [of "''t9''"]]
  show ?thesis by simp
qed


text \<open>
  Claim C7, as the code has it. An import in the format json of a text that parses to a
  list of blocks, checked in a new chain object \<open>temp\<close>: if some block after the first
  fails the validation against the block before it (index, link to the previous hash,
  hash recomputation, or the target at the difficulty of \<open>temp\<close>), the import raises
  ValueError and the chain object is as it was, with none of the imported blocks; if
  none fails, the imported list replaces the chain.
\<close>

theorem import_chain_all_or_nothing:
  assumes "str_lower format = ''json''"
    and "json_loads chain_data = Some imported"
    and "BlockchainAudit_init H now = Some temp"
  shows "import_chain H json_loads now chain_data format s =
     (if \<exists>i. 0 < i \<and> i < length imported
            \<and> \<not> is_valid_block H (difficulty temp) (imported ! i) (imported ! (i - 1))
      then Some (Some ValueError, s)
      else Some (None, s\<lparr>chain := imported\<rparr>))"
  using assms by (rule import_chain_result [where json_loads = json_loads and chain_data = chain_data])

theorem import_chain_all_or_nothing_witness:
  "str_lower ''JSON'' = ''json''
   \<and> import_chain H_demo (\<lambda>text. Some [demo_genesis, demo_block1]) ''t9'' ''[...]'' ''JSON''
         demo_chain0
       = Some (None, demo_chain0\<lparr>chain := [demo_genesis, demo_block1]\<rparr>)
   \<and> import_chain H_demo
         (\<lambda>text. Some [demo_genesis, demo_block1\<lparr>data := tampered_payload\<rparr>]) ''t9'' ''[...]''
         ''JSON'' demo_chain0
       = Some (Some ValueError, demo_chain0)"
proof -
  let ?good = "[demo_genesis, demo_block1]"
  let ?bad = "[demo_genesis, demo_block1\<lparr>data := tampered_payload\<rparr>]"
  have jg: "(\<lambda>text::string. Some ?good) ''[...]'' = Some ?good" by simp
  have jb: "(\<lambda>text::string. Some ?bad) ''[...]'' = Some ?bad" by simp
  have v: "is_valid_block H_demo 4 demo_block1 demo_genesis"
    by (simp add: is_valid_block_def demo_block1_def demo_genesis_def calculate_hash_def
          H_demo_def demo_payload_def startswith_def zeros4)
  have nv: "\<not> is_valid_block H_demo 4 (demo_block1\<lparr>data := tampered_payload\<rparr>) demo_genesis"
    by (simp add: is_valid_block_def demo_block1_def demo_genesis_def calculate_hash_def
          H_demo_def tampered_payload_def)
  have g: "\<not> (\<exists>i. 0 < i \<and> i < length ?good
        \<and> \<not> is_valid_block H_demo 4 (?good ! i) (?good ! (i - 1)))"
    using v by (auto simp: less_Suc_eq)
  have b: "\<exists>i. 0 < i \<and> i < length ?bad
        \<and> \<not> is_valid_block H_demo 4 (?bad ! i) (?bad ! (i - 1))"
    using nv by (intro exI [of _ 1]) simp
  from import_chain_all_or_nothing [where json_loads = "\<lambda>text. Some ?good"
      and chain_data = "''[...]''" and s = demo_chain0,
      OF str_lower_JSON jg demo_init_any [of "''t9''"]] g
  have r1: "import_chain H_demo (\<lambda>text. Some ?good) ''t9'' ''[...]'' ''JSON'' demo_chain0
       = Some (None, demo_chain0\<lparr>chain := ?good\<rparr>)"
    by simp
  from import_chain_all_or_nothing [where json_loads = "\<lambda>text. Some ?bad"
      and chain_data = "''[...]''" and s = demo_chain0,
      OF str_lower_JSON jb demo_init_any [of "''t9''"]] b
  have r2: "import_chain H_demo (\<lambda>text. Some ?bad) ''t9'' ''[...]'' ''JSON'' demo_chain0
       = Some (Some ValueError, demo_chain0)"
    by simp
  from str_lower_JSON r1 r2 show ?thesis by blast
qed

text \<open>
  The first block of the imported list is never validated: a list whose first block
  carries a hash that is not the hash recomputed from it is imported, and replaces the
  chain.
\<close>

theorem import_chain_counterexample:
  "calculate_hash H_demo (demo_genesis\<lparr>data := tampered_payload\<rparr>)
     \<noteq> hash (demo_genesis\<lparr>data := tampered_payload\<rparr>)
   \<and> import_chain H_demo (\<lambda>text. Some [demo_genesis\<lparr>data := tampered_payload\<rparr>, demo_block1])
        ''t9'' ''[...]'' ''json'' demo_chain0
     = Some (None, demo_chain0\<lparr>chain := [demo_genesis\<lparr>data := tampered_payload\<rparr>, demo_block1]\<rparr>)"
proof -
  have "calculate_hash H_demo (demo_genesis\<lparr>data := tampered_payload\<rparr>)
     \<noteq> hash (demo_genesis\<lparr>data := tampered_payload\<rparr>)"
    by (simp add: demo_genesis_def calculate_hash_def H_demo_def tampered_payload_def)
  with import_tampered_genesis show ?thesis by blast
qed

subsection \<open>When the mining returns\<close>

text \<open>
  The search has no bound of its own. It returns whenever some nonce from 0 to 1000000
  gives the block a hash with a leading zero; what it then returns is described by
  \<open>mine_block_result\<close>.
\<close>

lemma mine_block_found:
  "startswith (calculate_hash H (b\<lparr>nonce := n\<rparr>)) (zeros d) \<Longrightarrow> k \<le> n \<Longrightarrow> n \<le> 1000000 \<Longrightarrow>
   \<exists>y. mine_block H d (b\<lparr>nonce := k\<rparr>) = Some y"
proof (induction "nat (n - k)" arbitrary: k)
  case 0
  then have "k = n" by simp
  with 0 show ?case by (subst mine_block.simps) simp
next
  case (Suc m)
  show ?case
  proof (cases "startswith (calculate_hash H (b\<lparr>nonce := k\<rparr>)) (zeros d)")
    case True
    then show ?thesis by (subst mine_block.simps) simp
  next
    case False
    from Suc.hyps(2) have lt: "k < n" by simp
    with Suc.prems have small: "\<not> 1000000 < k + 1" by simp
    have m: "m = nat (n - (k + 1))" using Suc.hyps(2) by simp
    from Suc.hyps(1) [OF m Suc.prems(1) _ Suc.prems(3)] lt
    obtain y where y: "mine_block H d (b\<lparr>nonce := k + 1\<rparr>) = Some y" by auto
    have "mine_block H d (b\<lparr>nonce := k\<rparr>) = mine_block H d (b\<lparr>nonce := k + 1\<rparr>)"
      using False small by (subst mine_block.simps) simp
    with y show ?thesis by (simp only:) blast
  qed
qed

lemma mine_block_returns_from:
  assumes good: "startswith (calculate_hash H (b\<lparr>nonce := n\<rparr>)) (zeros 1)"
    and n: "0 \<le> n" "n \<le> 1000000"
  shows "\<exists>y. mine_block H d (b\<lparr>nonce := k\<rparr>) = Some y"
proof (induction d arbitrary: k)
  case 0
  show ?case by (subst mine_block.simps) (simp add: startswith_def zeros_def)
next
  case (Suc d)
  show ?case
  proof (induction "nat (1000001 - k)" arbitrary: k rule: less_induct)
    case less
    show ?case
    proof (cases "startswith (calculate_hash H (b\<lparr>nonce := k\<rparr>)) (zeros (Suc d))")
      case True
      then show ?thesis by (subst mine_block.simps) simp
    next
      case False
      show ?thesis
      proof (cases "1000000 < k + 1")
        case True
        have "\<exists>y. mine_block H (max 1 (Suc d - 1)) (b\<lparr>nonce := 0\<rparr>) = Some y"
        proof (cases d)
          case 0
          with mine_block_found [OF good n(1) n(2)] show ?thesis by simp
        next
          case (Suc d')
          with Suc.IH [of 0] show ?thesis by (simp add: max_def)
        qed
        then obtain y where
          y: "mine_block H (max 1 (Suc d - 1)) (b\<lparr>nonce := 0\<rparr>) = Some y" by auto
        have "mine_block H (Suc d) (b\<lparr>nonce := k\<rparr>) =
            mine_block H (max 1 (Suc d - 1)) (b\<lparr>nonce := 0\<rparr>)"
          using False True by (subst mine_block.simps) simp
        with y show ?thesis by (simp only:) blast
      next
        case small: False
        then have "nat (1000001 - (k + 1)) < nat (1000001 - k)" by simp
        from less [OF this] obtain y where
          y: "mine_block H (Suc d) (b\<lparr>nonce := k + 1\<rparr>) = Some y" by auto
        have "mine_block H (Suc d) (b\<lparr>nonce := k\<rparr>) =
            mine_block H (Suc d) (b\<lparr>nonce := k + 1\<rparr>)"
          using False small by (subst mine_block.simps) simp
        with y show ?thesis by (simp only:) blast
      qed
    qed
  qed
qed

end
